theory Spec2Isabelle
  imports Main "HOL-Library.Sublist"
begin

section \<open>Python values used by wordle_app.py\<close>

text \<open>
  Exceptions of the Python source are values: a function that can raise returns
  \<open>error + 'a\<close>, with \<open>Inl\<close> for the exception.
\<close>

datatype error = IndexError | KeyError | ValueError | TypeError

text \<open>
  A Python \<open>str\<close> is a \<open>string\<close>; a one-character \<open>str\<close> such as \<open>solution[i]\<close> is a
  one-element list. The model covers ASCII text: the word lists, the keyboard and the key
  names of the source are ASCII.
\<close>

definition ascii_lowercase :: string where
  "ascii_lowercase = ''abcdefghijklmnopqrstuvwxyz''"

definition ascii_uppercase :: string where
  "ascii_uppercase = ''ABCDEFGHIJKLMNOPQRSTUVWXYZ''"

definition ascii_letters :: string where
  "ascii_letters = ascii_lowercase @ ascii_uppercase"

definition upper_char :: "char \<Rightarrow> char" where
  "upper_char c = (case map_of (zip ascii_lowercase ascii_uppercase) c of
                     Some u \<Rightarrow> u | None \<Rightarrow> c)"

definition lower_char :: "char \<Rightarrow> char" where
  "lower_char c = (case map_of (zip ascii_uppercase ascii_lowercase) c of
                     Some l \<Rightarrow> l | None \<Rightarrow> c)"

definition upper :: "string \<Rightarrow> string" where
  "upper s = map upper_char s"

definition lower :: "string \<Rightarrow> string" where
  "lower s = map lower_char s"

text \<open>\<open>list(s)\<close>: the characters of a \<open>str\<close> as one-character strings.\<close>

definition list_of_str :: "string \<Rightarrow> string list" where
  "list_of_str s = map (\<lambda>c. [c]) s"

text \<open>\<open>xs[i]\<close> on a Python list: a negative index counts from the end.\<close>

definition py_index :: "'a list \<Rightarrow> int \<Rightarrow> error + nat" where
  "py_index xs i =
     (let n = int (length xs); j = (if i < 0 then n + i else i)
      in if 0 \<le> j \<and> j < n then Inr (nat j) else Inl IndexError)"

text \<open>\<open>int(ch)\<close> for a one-character \<open>str\<close>: a decimal digit, or ValueError.\<close>

definition int_of_char :: "char \<Rightarrow> error + int" where
  "int_of_char ch =
     (case map_of (zip ''0123456789'' [0, 1, 2, 3, 4, 5, 6, 7, 8, 9]) ch of
        Some d \<Rightarrow> Inr d | None \<Rightarrow> Inl ValueError)"

text \<open>
  \<open>Counter(solution)\<close>: a \<open>Counter\<close> reads a missing key as 0, both through
  \<open>counter[k]\<close> and through \<open>counter.get(k, 0)\<close>, so it is a total function to \<open>int\<close>.
\<close>

type_synonym counter = "string \<Rightarrow> int"

definition Counter :: "string \<Rightarrow> counter" where
  "Counter s = (\<lambda>k. int (count_list (list_of_str s) k))"

section \<open>Module constants\<close>

definition ABSENT :: int where "ABSENT = 0"
definition PRESENT :: int where "PRESENT = 1"
definition CORRECT :: int where "CORRECT = 2"

definition COLUMN_SIZE :: nat where "COLUMN_SIZE = 5"
definition ROW_SIZE :: nat where "ROW_SIZE = 6"

section \<open>class Letter\<close>

text \<open>
  The fields of a \<open>Letter\<close> widget that the game logic reads and writes. \<open>status\<close> is
  \<open>None\<close> until the cell is scored. (\<open>clickable\<close> and \<open>style\<close> only feed \<open>render\<close>.)
\<close>

record Letter =
  name :: string
  label :: string
  status :: "int option"

definition Letter_init :: "string \<Rightarrow> Letter" where
  "Letter_init nm = \<lparr>name = nm, label = nm, status = None\<rparr>"

section \<open>class GuessView\<close>

text \<open>
  \<open>__init__\<close> creates the 30 slots; the attribute \<open>current\<close> exists only once
  \<open>on_mount\<close> has run, so the view before mounting is its slot list alone. \<open>current\<close>
  is a \<open>nat\<close>: it starts at 0 and the only decrement is guarded by
  \<open>current % COLUMN_SIZE != 0\<close>.
\<close>

record GuessView =
  slots :: "Letter list"
  current :: nat

definition GuessView_init :: "Letter list" where
  "GuessView_init = replicate (COLUMN_SIZE * ROW_SIZE) (Letter_init [])"

definition GuessView_on_mount :: "Letter list \<Rightarrow> GuessView" where
  "GuessView_on_mount sl = \<lparr>slots = sl, current = 0\<rparr>"

definition row_start :: "GuessView \<Rightarrow> nat" where
  "row_start g = current g div COLUMN_SIZE * COLUMN_SIZE"

definition current_guess :: "GuessView \<Rightarrow> Letter list" where
  "current_guess g = take COLUMN_SIZE (drop (row_start g) (slots g))"

definition current_word :: "GuessView \<Rightarrow> string list" where
  "current_word g = map name (current_guess g)"

text \<open>
  \<open>current_guess\<close> is a slice holding the \<open>Letter\<close> objects of the row themselves, so
  assigning to their fields changes the slots of that row: \<open>store_row\<close> writes the
  updated objects back where the slice was taken.
\<close>

definition store_row :: "GuessView \<Rightarrow> nat \<Rightarrow> Letter list \<Rightarrow> GuessView" where
  "store_row g start row =
     g\<lparr>slots := take start (slots g) @ row @ drop (start + length row) (slots g)\<rparr>"

text \<open>\<open>partition(l, size)\<close>: chunks from \<open>islice\<close> until the first empty one.\<close>

function partition_chunks :: "'a list \<Rightarrow> nat \<Rightarrow> 'a list list" where
  "partition_chunks l sz =
     (if take sz l = [] then []
      else take sz l # partition_chunks (drop sz l) sz)"
  by pat_completeness auto
termination
  by (relation "measure (\<lambda>(l, sz). length l)") auto

declare partition_chunks.simps [simp del]

definition valid_guesses :: "GuessView \<Rightarrow> Letter list list" where
  "valid_guesses g =
     partition_chunks (takeWhile (\<lambda>x. name x \<noteq> []) (slots g)) COLUMN_SIZE"

definition set_letter :: "Letter \<Rightarrow> string \<Rightarrow> Letter" where
  "set_letter button letter = button\<lparr>name := letter, label := letter\<rparr>"

definition input_letter :: "GuessView \<Rightarrow> string \<Rightarrow> error + GuessView" where
  "input_letter g letter =
     (if length (slots g) \<le> current g then Inl IndexError
      else if name (slots g ! current g) \<noteq> [] then
        (if current g mod COLUMN_SIZE = COLUMN_SIZE - 1 then Inr g
         else if length (slots g) \<le> current g + 1 then Inl IndexError
         else Inr (g\<lparr>current := current g + 1,
                     slots := (slots g)[current g + 1 :=
                                set_letter (slots g ! (current g + 1)) letter]\<rparr>))
      else Inr (g\<lparr>slots := (slots g)[current g :=
                                set_letter (slots g ! current g) letter]\<rparr>))"

definition backspace_letter :: "GuessView \<Rightarrow> error + GuessView" where
  "backspace_letter g =
     (if length (slots g) \<le> current g then Inl IndexError
      else if name (slots g ! current g) = [] then
        (if current g mod COLUMN_SIZE = 0 then Inr g
         else Inr (g\<lparr>current := current g - 1,
                     slots := (slots g)[current g - 1 :=
                                set_letter (slots g ! (current g - 1)) []]\<rparr>))
      else Inr (g\<lparr>slots := (slots g)[current g :=
                                set_letter (slots g ! current g) []]\<rparr>))"

subsection \<open>check_solution\<close>

text \<open>
  First loop of \<open>check_solution\<close>: \<open>for i, b in enumerate(letters)\<close>. Reading
  \<open>solution[i]\<close> past the end of the solution raises IndexError.
\<close>

fun pass1 :: "string \<Rightarrow> counter \<Rightarrow> nat \<Rightarrow> Letter list \<Rightarrow> error + (counter \<times> Letter list)" where
  "pass1 solution counter i [] = Inr (counter, [])"
| "pass1 solution counter i (b # bs) =
     (if length solution \<le> i then Inl IndexError
      else if [solution ! i] = name b then
        (case pass1 solution (counter(name b := counter (name b) - 1)) (i + 1) bs of
           Inl e \<Rightarrow> Inl e
         | Inr (c, bs') \<Rightarrow> Inr (c, b\<lparr>status := Some CORRECT\<rparr> # bs'))
      else
        (case pass1 solution counter (i + 1) bs of
           Inl e \<Rightarrow> Inl e
         | Inr (c, bs') \<Rightarrow> Inr (c, b # bs')))"

text \<open>Second loop: \<open>for b in letters\<close>, skipping the cells already CORRECT.\<close>

fun pass2 :: "counter \<Rightarrow> Letter list \<Rightarrow> Letter list" where
  "pass2 counter [] = []"
| "pass2 counter (b # bs) =
     (if status b = Some CORRECT then b # pass2 counter bs
      else if counter (name b) \<le> 0 then b\<lparr>status := Some ABSENT\<rparr> # pass2 counter bs
      else b\<lparr>status := Some PRESENT\<rparr>
             # pass2 (counter(name b := counter (name b) - 1)) bs)"

text \<open>
  The result is the returned value (\<open>True\<close>, \<open>False\<close>, or \<open>None\<close> when the function
  falls off its end) together with the view after the call.
\<close>

definition check_solution :: "GuessView \<Rightarrow> string \<Rightarrow> error + (GuessView \<times> bool option)" where
  "check_solution g solution =
     (let word = current_word g; letters = current_guess g in
      if list_of_str solution = word then
        Inr (store_row g (row_start g) (map (\<lambda>b. b\<lparr>status := Some CORRECT\<rparr>) letters),
             Some True)
      else
        (case pass1 solution (Counter solution) 0 letters of
           Inl e \<Rightarrow> Inl e
         | Inr (counter, letters1) \<Rightarrow>
             (let g' = store_row g (row_start g) (pass2 counter letters1) in
              if current g < COLUMN_SIZE * ROW_SIZE - 1
              then Inr (g'\<lparr>current := current g + 1\<rparr>, None)
              else Inr (g', Some False))))"

section \<open>The statistics record\<close>

text \<open>
  The dict \<open>self.stats\<close>, and the JSON object of the file \<open>.stats.json\<close>. The keys
  \<open>played\<close> and \<open>stats\<close> are in \<open>INITIAL_STATS\<close> and in every record the program
  writes; the three \<open>last_*\<close> keys are absent from \<open>INITIAL_STATS\<close>, so each is an
  option whose \<open>None\<close> is the missing key. The value of \<open>last_result\<close> is itself
  \<open>None\<close>, \<open>True\<close> or \<open>False\<close>.
\<close>

record stats_dict =
  played :: int
  stats :: "int list"
  last_played :: "int option"
  last_guesses :: "(string \<times> string) option"
  last_result :: "bool option option"

definition INITIAL_STATS :: stats_dict where
  "INITIAL_STATS = \<lparr>played = 0, stats = [0, 0, 0, 0, 0, 0], last_played = None,
                     last_guesses = None, last_result = None\<rparr>"

text \<open>\<open>str(n)\<close> for an \<open>int\<close>, and \<open>str(l.status)\<close> for a status that may be \<open>None\<close>.\<close>

fun str_nat :: "nat \<Rightarrow> string" where
  "str_nat n = (if n < 10 then [''0123456789'' ! n]
                else str_nat (n div 10) @ [''0123456789'' ! (n mod 10)])"

declare str_nat.simps [simp del]

definition str_int :: "int \<Rightarrow> string" where
  "str_int i = (if i < 0 then CHR ''-'' # str_nat (nat (- i)) else str_nat (nat i))"

definition str_status :: "int option \<Rightarrow> string" where
  "str_status s = (case s of None \<Rightarrow> ''None'' | Some v \<Rightarrow> str_int v)"

section \<open>class WordleApp\<close>

text \<open>
  The attributes of the application. \<open>guess\<close> is the \<open>GuessView\<close>: a slot list while
  \<open>init_game\<close> runs (the view is not mounted yet), a \<^typ>\<open>GuessView\<close> afterwards.
  \<open>message\<close> is \<open>self.message.content\<close>; \<open>stats_json\<close> is the content of the file
  \<open>.stats.json\<close>, \<open>None\<close> when the file does not exist. The word lists \<open>La\<close> and
  \<open>Ta\<close> are read from files outside the source, so they are parameters.
\<close>

record 'g WordleApp =
  index :: int
  solution :: string
  self_stats :: stats_dict
  result :: "bool option"
  buttons :: "string \<rightharpoonup> Letter"
  message :: string
  guess :: 'g
  stats_json :: "stats_dict option"

definition KEYBOARD :: "string list" where
  "KEYBOARD = [''QWERTYUIOP'', ''ASDFGHJKL'', ''ZXCVBNM'']"

definition buttons_init :: "string \<rightharpoonup> Letter" where
  "buttons_init = map_of (map (\<lambda>nm. (nm, Letter_init nm)) (list_of_str (concat KEYBOARD)))"

text \<open>\<open>button.status or 0\<close>\<close>

definition status_or_0 :: "Letter \<Rightarrow> int" where
  "status_or_0 button = (case status button of None \<Rightarrow> 0 | Some v \<Rightarrow> v)"

definition show_result :: "'g WordleApp \<Rightarrow> 'g WordleApp" where
  "show_result a =
     a\<lparr>message :=
         (if result a = Some True then ''You Win!''
          else ''You Lose! The answer is:'' @ [CHR 0x0A] @ solution a)
         @ [CHR 0x0A] @ ''Press 'c' to copy the result.''\<rparr>"

text \<open>
  \<open>stats["played"]\<close> is incremented, and the record that is written (and merged back
  into \<open>self.stats\<close> by \<open>update\<close>) holds \<open>self.stats["played"] + 1\<close>.
\<close>

definition save_statistics :: "GuessView WordleApp \<Rightarrow> error + GuessView WordleApp" where
  "save_statistics a =
     (let guesses = valid_guesses (guess a);
          st1 = (self_stats a)\<lparr>played := played (self_stats a) + 1\<rparr> in
      case (if result a = Some True
            then (case py_index (stats st1) (int (length guesses) - 1) of
                    Inl e \<Rightarrow> Inl e
                  | Inr j \<Rightarrow> Inr (st1\<lparr>stats := (stats st1)[j := stats st1 ! j + 1]\<rparr>))
            else Inr st1) of
        Inl e \<Rightarrow> Inl e
      | Inr st2 \<Rightarrow>
          (let data = \<lparr>played = played st2 + 1,
                       stats = stats st2,
                       last_played = Some (index a),
                       last_guesses = Some (concat (map name (concat guesses)),
                                            concat (map (\<lambda>l. str_status (status l))
                                                        (concat guesses))),
                       last_result = Some (result a)\<rparr>
           in Inr (a\<lparr>self_stats := data, stats_json := Some data\<rparr>)))"

text \<open>The loop of \<open>check_input\<close> over the submitted row: \<open>for l in current\<close>.\<close>

fun update_buttons :: "(string \<rightharpoonup> Letter) \<Rightarrow> Letter list \<Rightarrow> error + (string \<rightharpoonup> Letter)" where
  "update_buttons bts [] = Inr bts"
| "update_buttons bts (l # ls) =
     (case bts (name l) of
        None \<Rightarrow> Inl KeyError
      | Some button \<Rightarrow>
          (case status l of
             None \<Rightarrow> Inl TypeError
           | Some s \<Rightarrow>
               update_buttons
                 (bts(name l \<mapsto> button\<lparr>status := Some (max (status_or_0 button) s)\<rparr>)) ls))"

text \<open>
  \<open>current\<close> is taken before \<open>check_solution\<close> moves the cursor and holds the objects
  of the submitted row, so the loop reads the statuses that \<open>check_solution\<close> has set.
\<close>

definition check_input :: "string list \<Rightarrow> string list \<Rightarrow> GuessView WordleApp \<Rightarrow> error + GuessView WordleApp" where
  "check_input La Ta a =
     (let start = row_start (guess a);
          current_word' = lower (concat (current_word (guess a))) in
      if [] \<in> set (current_word (guess a)) then Inr (a\<lparr>message := ''Not enough letters''\<rparr>)
      else if current_word' \<notin> set Ta \<and> current_word' \<notin> set La
      then Inr (a\<lparr>message := ''Not in word list''\<rparr>)
      else
        (case check_solution (guess a) (solution a) of
           Inl e \<Rightarrow> Inl e
         | Inr (g', r) \<Rightarrow>
             (case update_buttons (buttons a) (take COLUMN_SIZE (drop start (slots g'))) of
                Inl e \<Rightarrow> Inl e
              | Inr bts \<Rightarrow>
                  (let a' = a\<lparr>guess := g', result := r, buttons := bts\<rparr> in
                   if r \<noteq> None then save_statistics (show_result a') else Inr a'))))"

text \<open>
  \<open>copy_result\<close>: \<open>BLOCKS[l.status]\<close> raises KeyError for a status other than 0, 1, 2.
  The text handed to the clipboard and the timer that restores the message after two
  seconds are outside the model.
\<close>

definition copy_result :: "GuessView WordleApp \<Rightarrow> error + GuessView WordleApp" where
  "copy_result a =
     (if list_all (\<lambda>l. status l \<in> {Some ABSENT, Some PRESENT, Some CORRECT})
                  (concat (valid_guesses (guess a)))
      then Inr (a\<lparr>message := ''Successfully copied to the clipboard.''\<rparr>)
      else Inl KeyError)"

definition on_key :: "string list \<Rightarrow> string list \<Rightarrow> GuessView WordleApp \<Rightarrow> string \<Rightarrow> error + GuessView WordleApp" where
  "on_key La Ta a key =
     (if result a \<noteq> None then (if key = ''c'' then copy_result a else Inr a)
      else
        (let a1 = a\<lparr>message := []\<rparr> in
         if sublist key ascii_letters then
           (case input_letter (guess a1) (upper key) of
              Inl e \<Rightarrow> Inl e | Inr g \<Rightarrow> Inr (a1\<lparr>guess := g\<rparr>))
         else if key = ''enter'' then check_input La Ta a1
         else if key = ''ctrl+h'' then
           (case backspace_letter (guess a1) of
              Inl e \<Rightarrow> Inl e | Inr g \<Rightarrow> Inr (a1\<lparr>guess := g\<rparr>))
         else Inr a1))"

definition handle_button_pressed :: "string list \<Rightarrow> string list \<Rightarrow> GuessView WordleApp \<Rightarrow> string \<Rightarrow> error + GuessView WordleApp" where
  "handle_button_pressed La Ta a sender_name =
     (if result a \<noteq> None then Inr a
      else
        (let a1 = a\<lparr>message := []\<rparr> in
         if sender_name = ''enter'' then check_input La Ta a1
         else if sender_name = ''backspace'' then
           (case backspace_letter (guess a1) of
              Inl e \<Rightarrow> Inl e | Inr g \<Rightarrow> Inr (a1\<lparr>guess := g\<rparr>))
         else
           (case input_letter (guess a1) sender_name of
              Inl e \<Rightarrow> Inl e | Inr g \<Rightarrow> Inr (a1\<lparr>guess := g\<rparr>))))"

subsection \<open>init_game and on_mount\<close>

text \<open>The loop of \<open>init_game\<close>: \<open>for i, (letter, status) in enumerate(zip(...))\<close>.\<close>

fun replay :: "nat \<Rightarrow> (char \<times> char) list \<Rightarrow> Letter list \<Rightarrow> (string \<rightharpoonup> Letter)
               \<Rightarrow> error + (Letter list \<times> (string \<rightharpoonup> Letter))" where
  "replay i [] sl bts = Inr (sl, bts)"
| "replay i ((letter, st) # rest) sl bts =
     (if length sl \<le> i then Inl IndexError
      else
        (case int_of_char st of
           Inl e \<Rightarrow> Inl e
         | Inr v \<Rightarrow>
             (case bts [letter] of
                None \<Rightarrow> Inl KeyError
              | Some button \<Rightarrow>
                  replay (i + 1) rest
                    (sl[i := (sl ! i)\<lparr>name := [letter], label := [letter], status := Some v\<rparr>])
                    (bts([letter] \<mapsto> button\<lparr>status := Some (max (status_or_0 button) v)\<rparr>)))))"

definition init_game :: "Letter list WordleApp \<Rightarrow> error + Letter list WordleApp" where
  "init_game a =
     (if index a > (case last_played (self_stats a) of None \<Rightarrow> - 1 | Some p \<Rightarrow> p)
      then Inr (a\<lparr>self_stats := (self_stats a)\<lparr>last_result := Some None\<rparr>\<rparr>)
      else
        (case last_guesses (self_stats a) of
           None \<Rightarrow> Inl KeyError
         | Some (letters, statuses) \<Rightarrow>
             (case replay 0 (zip letters statuses) (guess a) (buttons a) of
                Inl e \<Rightarrow> Inl e
              | Inr (sl, bts) \<Rightarrow>
                  (case last_result (self_stats a) of
                     None \<Rightarrow> Inl KeyError
                   | Some r \<Rightarrow>
                       Inr (show_result (a\<lparr>guess := sl, buttons := bts, result := r\<rparr>))))))"

text \<open>
  \<open>on_mount\<close> of the application. \<open>idx\<close> is the value of \<open>get_index()\<close> (the days since
  \<open>SEED_DATE\<close>), \<open>file\<close> the parsed content of \<open>.stats.json\<close> if the file exists.
  \<open>init_game\<close> runs on the new, unmounted \<open>GuessView\<close>; docking the view mounts it, and
  \<open>GuessView.on_mount\<close> then sets \<open>current\<close>.
\<close>

definition WordleApp_on_mount :: "string list \<Rightarrow> int \<Rightarrow> stats_dict option \<Rightarrow> error + GuessView WordleApp" where
  "WordleApp_on_mount La idx file =
     (case py_index La idx of
        Inl e \<Rightarrow> Inl e
      | Inr j \<Rightarrow>
          (case init_game
                  \<lparr>index = idx, solution = upper (La ! j),
                   self_stats = (case file of None \<Rightarrow> INITIAL_STATS | Some st \<Rightarrow> st),
                   result = None, buttons = buttons_init, message = [],
                   guess = GuessView_init, stats_json = file\<rparr> of
             Inl e \<Rightarrow> Inl e
           | Inr a \<Rightarrow>
               Inr \<lparr>index = index a, solution = solution a, self_stats = self_stats a,
                    result = result a, buttons = buttons a, message = message a,
                    guess = GuessView_on_mount (guess a), stats_json = stats_json a\<rparr>))"

section \<open>Notions used to state the properties\<close>

text \<open>A mounted view has its 30 slots and a cursor inside them.\<close>

definition wf_view :: "GuessView \<Rightarrow> bool" where
  "wf_view g \<longleftrightarrow> length (slots g) = COLUMN_SIZE * ROW_SIZE \<and> current g < COLUMN_SIZE * ROW_SIZE"

text \<open>
  The cursor invariant of the code: inside the current row, every cell before the cursor
  holds a letter and every cell after the cursor is empty. The cell under the cursor may
  be filled (the last letter typed) or empty (an empty row, or after a backspace).
\<close>

definition cursor_invariant :: "GuessView \<Rightarrow> bool" where
  "cursor_invariant g \<longleftrightarrow>
     wf_view g \<and>
     (\<forall>i \<in> {row_start g ..< current g}. name (slots g ! i) \<noteq> []) \<and>
     (\<forall>i \<in> {Suc (current g) ..< row_start g + COLUMN_SIZE}. name (slots g ! i) = [])"

text \<open>The rows before the current one are full, the rows after it are empty.\<close>

definition rows_invariant :: "GuessView \<Rightarrow> bool" where
  "rows_invariant g \<longleftrightarrow>
     (\<forall>i \<in> {0 ..< row_start g}. name (slots g ! i) \<noteq> []) \<and>
     (\<forall>i \<in> {row_start g + COLUMN_SIZE ..< length (slots g)}. name (slots g ! i) = [])"

text \<open>
  The invariant in the words of the specification: the cursor points at the first empty
  cell of the current row, or at the last filled cell if the row is full.
\<close>

definition spec_cursor_invariant :: "GuessView \<Rightarrow> bool" where
  "spec_cursor_invariant g \<longleftrightarrow>
     (if [] \<in> set (current_word g)
      then current g = row_start g + length (takeWhile (\<lambda>n. n \<noteq> []) (current_word g))
      else current g = row_start g + COLUMN_SIZE - 1)"

text \<open>The row that a call of \<open>check_solution\<close> on \<open>g\<close> has scored, read from the view \<open>g'\<close> after the call.\<close>

definition submitted_row :: "GuessView \<Rightarrow> GuessView \<Rightarrow> Letter list" where
  "submitted_row g g' = take COLUMN_SIZE (drop (row_start g) (slots g'))"

text \<open>The number of cells of a row that hold the letter \<open>k\<close> with status \<open>s\<close>.\<close>

definition count_marked :: "int \<Rightarrow> string \<Rightarrow> Letter list \<Rightarrow> nat" where
  "count_marked s k bs = length (filter (\<lambda>b. name b = k \<and> status b = Some s) bs)"

text \<open>
  The number of positions of a guessed word that hold the letter \<open>k\<close> where the solution
  has another letter.
\<close>

definition count_elsewhere :: "string \<Rightarrow> string \<Rightarrow> string list \<Rightarrow> nat" where
  "count_elsewhere sol k word =
     length (filter (\<lambda>(n, c). n = k \<and> n \<noteq> [c]) (zip word sol))"

text \<open>
  Typing a word into a view and scoring it: the statuses that \<open>check_solution\<close> gives
  to the first row of a new view that holds the guess.
\<close>

fun type_letters :: "GuessView \<Rightarrow> string list \<Rightarrow> error + GuessView" where
  "type_letters g [] = Inr g"
| "type_letters g (l # ls) =
     (case input_letter g l of Inl e \<Rightarrow> Inl e | Inr g' \<Rightarrow> type_letters g' ls)"

definition score :: "string \<Rightarrow> string \<Rightarrow> error + int option list" where
  "score sol word =
     (case type_letters (GuessView_on_mount GuessView_init) (list_of_str word) of
        Inl e \<Rightarrow> Inl e
      | Inr g \<Rightarrow>
          (case check_solution g sol of
             Inl e \<Rightarrow> Inl e
           | Inr (g', r) \<Rightarrow> Inr (map status (submitted_row g g'))))"

text \<open>
  The state of a key of the keyboard, and the order of the states:
  Unknown (\<open>None\<close>) below Absent below Present below Correct.
\<close>

definition key_status :: "(string \<rightharpoonup> Letter) \<Rightarrow> string \<Rightarrow> int option" where
  "key_status bts k = (case bts k of None \<Rightarrow> None | Some button \<Rightarrow> status button)"

definition state_rank :: "int option \<Rightarrow> int" where
  "state_rank s = (case s of None \<Rightarrow> - 1 | Some v \<Rightarrow> v)"

text \<open>A session: the key events handled one after the other.\<close>

fun run_keys :: "string list \<Rightarrow> string list \<Rightarrow> GuessView WordleApp \<Rightarrow> string list
                 \<Rightarrow> error + GuessView WordleApp" where
  "run_keys La Ta a [] = Inr a"
| "run_keys La Ta a (key # keys) =
     (case on_key La Ta a key of Inl e \<Rightarrow> Inl e | Inr a' \<Rightarrow> run_keys La Ta a' keys)"

text \<open>
  A mounted view whose first row holds the five letters of a word, the cursor on the last
  of them: the view after the word has been typed into the empty grid.
\<close>

definition view_with :: "string \<Rightarrow> GuessView" where
  "view_with w = \<lparr>slots = map Letter_init (list_of_str w)
                           @ replicate (COLUMN_SIZE * ROW_SIZE - COLUMN_SIZE) (Letter_init []),
                  current = COLUMN_SIZE - 1\<rparr>"

text \<open>
  The application of a new installation (no statistics file) on day 0, not yet finished,
  around a given solution and view.
\<close>

definition new_app :: "string \<Rightarrow> GuessView \<Rightarrow> GuessView WordleApp" where
  "new_app sol g = \<lparr>index = 0, solution = sol, self_stats = INITIAL_STATS, result = None,
                    buttons = buttons_init, message = [], guess = g, stats_json = None\<rparr>"

section \<open>Facts about the grid\<close>

lemma row_start_bounds:
  assumes "wf_view g"
  shows "row_start g \<le> current g" and "current g < row_start g + COLUMN_SIZE"
    and "row_start g + COLUMN_SIZE \<le> length (slots g)"
    and "row_start g mod COLUMN_SIZE = 0"
  using assms unfolding wf_view_def row_start_def COLUMN_SIZE_def ROW_SIZE_def
  by presburger+

lemma last_column_iff:
  "wf_view g \<Longrightarrow> current g mod COLUMN_SIZE = COLUMN_SIZE - 1 \<longleftrightarrow> current g = row_start g + COLUMN_SIZE - 1"
  unfolding wf_view_def row_start_def COLUMN_SIZE_def ROW_SIZE_def by presburger

lemma first_column_iff:
  "wf_view g \<Longrightarrow> current g mod COLUMN_SIZE = 0 \<longleftrightarrow> current g = row_start g"
  unfolding wf_view_def row_start_def COLUMN_SIZE_def ROW_SIZE_def by presburger

lemma row_start_same_row:
  "row_start g \<le> c \<Longrightarrow> c < row_start g + COLUMN_SIZE \<Longrightarrow> row_start (g\<lparr>current := c, slots := sl\<rparr>) = row_start g"
  unfolding row_start_def COLUMN_SIZE_def by simp

lemma row_start_slots_update [simp]:
  "row_start (g\<lparr>slots := sl\<rparr>) = row_start g"
  by (simp add: row_start_def)

lemma input_letter_invariant:
  assumes "cursor_invariant g"
  shows "\<exists>g'. input_letter g letter = Inr g' \<and> cursor_invariant g'"
proof -
  from assms have wf: "wf_view g" by (simp add: cursor_invariant_def)
  note b = row_start_bounds[OF wf]
  show ?thesis
  proof (cases "name (slots g ! current g) \<noteq> []")
    case False
    with wf assms show ?thesis
      by (auto simp: input_letter_def cursor_invariant_def wf_view_def set_letter_def nth_list_update)
  next
    case filled: True
    show ?thesis
    proof (cases "current g mod COLUMN_SIZE = COLUMN_SIZE - 1")
      case True
      with wf filled assms show ?thesis by (simp add: input_letter_def wf_view_def)
    next
      case False
      with last_column_iff[OF wf] b have lt: "current g + 1 < row_start g + COLUMN_SIZE" by linarith
      with b have len: "current g + 1 < length (slots g)" by linarith
      let ?g' = "g\<lparr>current := current g + 1,
                    slots := (slots g)[current g + 1 := set_letter (slots g ! (current g + 1)) letter]\<rparr>"
      have rs: "row_start ?g' = row_start g"
        using row_start_same_row[of g "current g + 1"] b lt by simp
      have "input_letter g letter = Inr ?g'"
        using filled False len wf by (simp add: input_letter_def wf_view_def)
      moreover have "cursor_invariant ?g'"
        unfolding cursor_invariant_def rs
        using assms filled len wf
        by (auto simp: cursor_invariant_def wf_view_def nth_list_update less_Suc_eq)
      ultimately show ?thesis by blast
    qed
  qed
qed

lemma backspace_letter_invariant:
  assumes "cursor_invariant g"
  shows "\<exists>g'. backspace_letter g = Inr g' \<and> cursor_invariant g'"
proof -
  from assms have wf: "wf_view g" by (simp add: cursor_invariant_def)
  note b = row_start_bounds[OF wf]
  show ?thesis
  proof (cases "name (slots g ! current g) = []")
    case False
    with wf assms show ?thesis
      by (auto simp: backspace_letter_def cursor_invariant_def wf_view_def set_letter_def nth_list_update)
  next
    case empty: True
    show ?thesis
    proof (cases "current g mod COLUMN_SIZE = 0")
      case True
      with wf empty assms show ?thesis by (simp add: backspace_letter_def wf_view_def)
    next
      case False
      with first_column_iff[OF wf] b have gt: "row_start g < current g" by linarith
      let ?g' = "g\<lparr>current := current g - 1,
                    slots := (slots g)[current g - 1 := set_letter (slots g ! (current g - 1)) []]\<rparr>"
      have rs: "row_start ?g' = row_start g"
        using row_start_same_row[of g "current g - 1"] b gt by simp
      have "backspace_letter g = Inr ?g'"
        using empty False wf by (simp add: backspace_letter_def wf_view_def)
      moreover have "cursor_invariant ?g'"
      proof -
        have wf': "wf_view ?g'" using wf gt by (simp add: wf_view_def less_imp_diff_less)
        have c': "current ?g' = current g - 1" by simp
        have before: "name (slots ?g' ! i) \<noteq> []" if "i \<in> {row_start g ..< current g - 1}" for i
        proof -
          from that have "i \<in> {row_start g ..< current g}" and "i \<noteq> current g - 1" by auto
          with assms show ?thesis by (simp add: cursor_invariant_def)
        qed
        have after: "name (slots ?g' ! i) = []" if "i \<in> {Suc (current g - 1) ..< row_start g + COLUMN_SIZE}" for i
        proof (cases "i = current g")
          case True
          with empty gt show ?thesis by simp
        next
          case False
          with that gt have "i \<in> {Suc (current g) ..< row_start g + COLUMN_SIZE}" and "i \<noteq> current g - 1" by auto
          with assms show ?thesis by (simp add: cursor_invariant_def)
        qed
        show ?thesis
          unfolding cursor_invariant_def rs c' using wf' before after by blast
      qed
      ultimately show ?thesis by blast
    qed
  qed
qed

lemma cursor_invariant_initial: "cursor_invariant (GuessView_on_mount GuessView_init)"
  by (simp add: cursor_invariant_def wf_view_def GuessView_on_mount_def GuessView_init_def
      row_start_def COLUMN_SIZE_def ROW_SIZE_def Letter_init_def)

section \<open>The cursor invariant\<close>

text \<open>
  C5 (as the code has it). The cursor stays in the current row, with every cell of the row
  before it holding a letter and every cell after it empty: it is at the last letter
  typed, or at the first empty cell when the row is empty or a letter has just been
  deleted. This holds for the empty grid and is kept by every \<open>input_letter\<close> and
  every \<open>backspace_letter\<close>, neither of which raises.
\<close>

theorem cursor_invariant_preserved:
  "cursor_invariant (GuessView_on_mount GuessView_init) \<and>
   (\<forall>g letter. cursor_invariant g \<longrightarrow>
      (\<exists>g'. input_letter g letter = Inr g' \<and> cursor_invariant g')) \<and>
   (\<forall>g. cursor_invariant g \<longrightarrow>
      (\<exists>g'. backspace_letter g = Inr g' \<and> cursor_invariant g'))"
  using cursor_invariant_initial input_letter_invariant backspace_letter_invariant by blast

text \<open>The invariant at work: typing A into the empty grid, then deleting it.\<close>

theorem cursor_invariant_preserved_witness:
  "cursor_invariant (GuessView_on_mount GuessView_init) \<and>
   input_letter (GuessView_on_mount GuessView_init) ''A'' =
     Inr \<lparr>slots = Letter_init ''A'' # replicate 29 (Letter_init []), current = 0\<rparr> \<and>
   cursor_invariant \<lparr>slots = Letter_init ''A'' # replicate 29 (Letter_init []), current = 0\<rparr> \<and>
   backspace_letter \<lparr>slots = Letter_init ''A'' # replicate 29 (Letter_init []), current = 0\<rparr> =
     Inr (GuessView_on_mount GuessView_init)"
proof -
  have step: "input_letter (GuessView_on_mount GuessView_init) ''A'' =
     Inr \<lparr>slots = Letter_init ''A'' # replicate 29 (Letter_init []), current = 0\<rparr>"
    by code_simp
  have undo: "backspace_letter \<lparr>slots = Letter_init ''A'' # replicate 29 (Letter_init []), current = 0\<rparr> =
     Inr (GuessView_on_mount GuessView_init)"
    by code_simp
  from cursor_invariant_preserved step show ?thesis
    using undo by (metis sum.inject(2))
qed

text \<open>
  The invariant as the specification words it fails after the first letter: the cursor
  is still on cell 0, which now holds the letter, while the first empty cell is cell 1.
\<close>

theorem spec_cursor_invariant_broken:
  "spec_cursor_invariant (GuessView_on_mount GuessView_init) \<and>
   input_letter (GuessView_on_mount GuessView_init) ''A'' =
     Inr \<lparr>slots = Letter_init ''A'' # replicate 29 (Letter_init []), current = 0\<rparr> \<and>
   \<not> spec_cursor_invariant \<lparr>slots = Letter_init ''A'' # replicate 29 (Letter_init []), current = 0\<rparr>"
  by code_simp

section \<open>The two passes of the scoring\<close>

lemma CORRECT_neq [simp]: "CORRECT \<noteq> PRESENT" "CORRECT \<noteq> ABSENT" "PRESENT \<noteq> ABSENT"
  "PRESENT \<noteq> CORRECT" "ABSENT \<noteq> CORRECT" "ABSENT \<noteq> PRESENT"
  by (simp_all add: CORRECT_def PRESENT_def ABSENT_def)

lemma pass1_result:
  "i + length bs \<le> length sol \<Longrightarrow>
   pass1 sol c i bs =
     Inr (\<lambda>k. c k - int (length (filter (\<lambda>(b, ch). name b = k \<and> [ch] = k) (zip bs (drop i sol)))),
          map (\<lambda>(b, ch). if [ch] = name b then b\<lparr>status := Some CORRECT\<rparr> else b)
              (zip bs (drop i sol)))"
proof (induction bs arbitrary: i c)
  case Nil
  then show ?case by simp
next
  case (Cons b bs)
  then have i: "i < length sol" and rest: "Suc i + length bs \<le> length sol" by simp_all
  have d: "drop i sol = sol ! i # drop (Suc i) sol"
    using i by (simp add: Cons_nth_drop_Suc)
  show ?case
    using i Cons.IH[OF rest] by (auto simp: d)
qed

lemma pass2_length [simp]: "length (pass2 c bs) = length bs"
  by (induction bs arbitrary: c) simp_all

lemma pass2_names [simp]: "map name (pass2 c bs) = map name bs"
  by (induction bs arbitrary: c) simp_all

lemma pass2_correct:
  "map (\<lambda>b. status b = Some CORRECT) (pass2 c bs) = map (\<lambda>b. status b = Some CORRECT) bs"
  by (induction bs arbitrary: c) simp_all

lemma pass2_count_correct [simp]:
  "count_marked CORRECT k (pass2 c bs) = count_marked CORRECT k bs"
  by (induction bs arbitrary: c) (simp_all add: count_marked_def)

lemma pass2_count_present:
  "int (count_marked PRESENT k (pass2 c bs)) =
     min (max 0 (c k)) (int (length (filter (\<lambda>b. name b = k \<and> status b \<noteq> Some CORRECT) bs)))"
  by (induction bs arbitrary: c) (auto simp: count_marked_def)

lemma pass2_statuses:
  "list_all (\<lambda>b. status b \<in> {Some ABSENT, Some PRESENT, Some CORRECT}) (pass2 c bs)"
  by (induction bs arbitrary: c) simp_all

section \<open>The duplicate-letter example\<close>

text \<open>
  C1 (as the code has it). For the solution ALLOW and the guess LLAMA the scoring gives
  Present, Correct, Present, Absent, Absent: the solution has two L, so the L at position
  1 is Correct and the L at position 0 is Present; the A at position 2 is Present (the
  solution has one A, at position 0), and the second A, at position 4, is Absent.
\<close>

theorem score_allow_llama:
  "score ''ALLOW'' ''LLAMA'' =
     Inr [Some PRESENT, Some CORRECT, Some PRESENT, Some ABSENT, Some ABSENT]"
  by code_simp

text \<open>
  The result that the specification expects for this example, Present followed by four
  Absent, is not the one computed.
\<close>

theorem score_allow_llama_not_as_specified:
  "score ''ALLOW'' ''LLAMA'' \<noteq>
     Inr [Some PRESENT, Some ABSENT, Some ABSENT, Some ABSENT, Some ABSENT]"
  by code_simp

section \<open>The result of check_solution\<close>

lemma current_guess_length: "wf_view g \<Longrightarrow> length (current_guess g) = COLUMN_SIZE"
  using row_start_bounds(3)[of g] by (simp add: current_guess_def)

lemma current_guess_nth:
  "wf_view g \<Longrightarrow> i < COLUMN_SIZE \<Longrightarrow> current_guess g ! i = slots g ! (row_start g + i)"
  using row_start_bounds(3)[of g] by (simp add: current_guess_def)

lemma store_row_length:
  "wf_view g \<Longrightarrow> length row = COLUMN_SIZE \<Longrightarrow>
   length (slots (store_row g (row_start g) row)) = length (slots g)"
  using row_start_bounds(3)[of g] by (simp add: store_row_def)

lemma store_row_submitted:
  "wf_view g \<Longrightarrow> length row = COLUMN_SIZE \<Longrightarrow>
   take COLUMN_SIZE (drop (row_start g) (slots (store_row g (row_start g) row))) = row"
  using row_start_bounds(3)[of g] by (simp add: store_row_def)

lemma store_row_other:
  "wf_view g \<Longrightarrow> length row = COLUMN_SIZE \<Longrightarrow> i < row_start g \<or> row_start g + COLUMN_SIZE \<le> i \<Longrightarrow>
   slots (store_row g (row_start g) row) ! i = slots g ! i"
  using row_start_bounds(3)[of g]
  by (auto simp: store_row_def nth_append)

lemma store_row_current [simp]: "current (store_row g s row) = current g"
  by (simp add: store_row_def)

lemma pass2_all_correct:
  "list_all (\<lambda>b. status b = Some CORRECT) bs \<Longrightarrow> pass2 c bs = bs"
  by (induction bs arbitrary: c) simp_all

lemma mark_all_correct:
  "list_of_str sol = map name bs \<Longrightarrow>
   map (\<lambda>(b, ch). if [ch] = name b then b\<lparr>status := Some CORRECT\<rparr> else b) (zip bs sol)
   = map (\<lambda>b. b\<lparr>status := Some CORRECT\<rparr>) bs"
proof (induction bs arbitrary: sol)
  case Nil
  then show ?case by simp
next
  case (Cons b bs)
  then obtain ch rest where sol: "sol = ch # rest" by (cases sol) (auto simp: list_of_str_def)
  with Cons show ?case by (auto simp: list_of_str_def)
qed

lemma check_solution_result:
  assumes wf: "wf_view g" and len: "length sol = COLUMN_SIZE"
  shows "\<exists>g' r c1. check_solution g sol = Inr (g', r) \<and>
           pass1 sol (Counter sol) 0 (current_guess g) =
             Inr (c1, map (\<lambda>(b, ch). if [ch] = name b then b\<lparr>status := Some CORRECT\<rparr> else b)
                          (zip (current_guess g) sol)) \<and>
           (\<forall>k. c1 k = Counter sol k - int (length (filter (\<lambda>(b, ch). name b = k \<and> [ch] = k)
                                                       (zip (current_guess g) sol)))) \<and>
           submitted_row g g' =
             pass2 c1 (map (\<lambda>(b, ch). if [ch] = name b then b\<lparr>status := Some CORRECT\<rparr> else b)
                           (zip (current_guess g) sol)) \<and>
           length (slots g') = length (slots g) \<and>
           (\<forall>i. i < row_start g \<or> row_start g + COLUMN_SIZE \<le> i \<longrightarrow> slots g' ! i = slots g ! i) \<and>
           r = (if list_of_str sol = current_word g then Some True
                else if current g < COLUMN_SIZE * ROW_SIZE - 1 then None else Some False) \<and>
           current g' = (if list_of_str sol \<noteq> current_word g \<and> current g < COLUMN_SIZE * ROW_SIZE - 1
                         then current g + 1 else current g)"
proof -
  let ?bs = "current_guess g"
  let ?bs1 = "map (\<lambda>(b, ch). if [ch] = name b then b\<lparr>status := Some CORRECT\<rparr> else b) (zip ?bs sol)"
  let ?c1 = "\<lambda>k. Counter sol k - int (length (filter (\<lambda>(b, ch). name b = k \<and> [ch] = k) (zip ?bs sol)))"
  have lbs: "length ?bs = COLUMN_SIZE" by (rule current_guess_length[OF wf])
  have p1: "pass1 sol (Counter sol) 0 ?bs = Inr (?c1, ?bs1)"
    using pass1_result[of 0 ?bs sol "Counter sol"] lbs len by simp
  have lbs1: "length ?bs1 = COLUMN_SIZE" using lbs len by simp
  let ?row = "pass2 ?c1 ?bs1"
  have lrow: "length ?row = COLUMN_SIZE" using lbs1 by simp
  show ?thesis
  proof (cases "list_of_str sol = current_word g")
    case True
    then have eq: "?bs1 = map (\<lambda>b. b\<lparr>status := Some CORRECT\<rparr>) ?bs"
      using mark_all_correct[of sol ?bs] by (simp add: current_word_def)
    have "list_all (\<lambda>b. status b = Some CORRECT) ?bs1"
      unfolding eq by (simp add: list_all_iff)
    then have row: "?row = map (\<lambda>b. b\<lparr>status := Some CORRECT\<rparr>) ?bs"
      using pass2_all_correct[of ?bs1 ?c1] eq by simp
    let ?g' = "store_row g (row_start g) (map (\<lambda>b. b\<lparr>status := Some CORRECT\<rparr>) ?bs)"
    have cs: "check_solution g sol = Inr (?g', Some True)"
      using True by (simp add: check_solution_def)
    have "submitted_row g ?g' = ?row"
      unfolding row submitted_row_def using store_row_submitted[OF wf, of "map (\<lambda>b. b\<lparr>status := Some CORRECT\<rparr>) ?bs"] lbs by simp
    moreover have "length (slots ?g') = length (slots g)"
      using store_row_length[OF wf] lbs by simp
    moreover have "\<forall>i. i < row_start g \<or> row_start g + COLUMN_SIZE \<le> i \<longrightarrow> slots ?g' ! i = slots g ! i"
      using store_row_other[OF wf] lbs by simp
    ultimately show ?thesis using cs p1 True by auto
  next
    case False
    let ?g1 = "store_row g (row_start g) ?row"
    let ?g' = "if current g < COLUMN_SIZE * ROW_SIZE - 1 then ?g1\<lparr>current := current g + 1\<rparr> else ?g1"
    let ?r = "if current g < COLUMN_SIZE * ROW_SIZE - 1 then None else Some False"
    have cs: "check_solution g sol = Inr (?g', ?r)"
      using False p1 by (simp add: check_solution_def Let_def)
    have "submitted_row g ?g' = ?row"
      unfolding submitted_row_def using store_row_submitted[OF wf lrow] by simp
    moreover have "length (slots ?g') = length (slots g)"
      using store_row_length[OF wf lrow] by simp
    moreover have "\<forall>i. i < row_start g \<or> row_start g + COLUMN_SIZE \<le> i \<longrightarrow> slots ?g' ! i = slots g ! i"
      using store_row_other[OF wf lrow] by simp
    moreover have "current ?g' = (if current g < COLUMN_SIZE * ROW_SIZE - 1 then current g + 1 else current g)"
      by simp
    ultimately show ?thesis using cs p1 False by (intro exI[of _ ?g'] exI[of _ ?r] exI[of _ ?c1]) simp
  qed
qed

section \<open>Scoring and letter multiplicity\<close>

lemma filter_zip_snd_le:
  "length (filter (\<lambda>(b, ch). P b \<and> Q ch) (zip bs cs)) \<le> length (filter Q cs)"
proof (induction cs arbitrary: bs)
  case Nil
  then show ?case by simp
next
  case (Cons c cs)
  show ?case
  proof (cases bs)
    case Nil
    then show ?thesis by simp
  next
    case (Cons b bs')
    with Cons.IH[of bs'] show ?thesis by auto
  qed
qed

lemma Counter_filter: "Counter sol k = int (length (filter (\<lambda>ch. [ch] = k) sol))"
proof -
  have "count_list (map (\<lambda>c. [c]) sol) k = length (filter (\<lambda>ch. [ch] = k) sol)"
    by (induction sol) auto
  then show ?thesis by (simp add: Counter_def list_of_str_def)
qed

lemma exact_matches_le_Counter:
  "int (length (filter (\<lambda>(b, ch). name b = k \<and> [ch] = k) (zip bs sol))) \<le> Counter sol k"
  using filter_zip_snd_le[of "\<lambda>b. name b = k" "\<lambda>ch. [ch] = k" bs sol]
  by (simp add: Counter_filter)

lemma marked_correct_count:
  "list_all (\<lambda>b. status b \<noteq> Some CORRECT) bs \<Longrightarrow>
   count_marked CORRECT k
     (map (\<lambda>(b, ch). if [ch] = name b then b\<lparr>status := Some CORRECT\<rparr> else b) (zip bs sol))
   = length (filter (\<lambda>(b, ch). name b = k \<and> [ch] = k) (zip bs sol))"
proof (induction bs arbitrary: sol)
  case Nil
  then show ?case by (simp add: count_marked_def)
next
  case (Cons b bs)
  show ?case
  proof (cases sol)
    case Nil
    then show ?thesis by (simp add: count_marked_def)
  next
    case (Cons ch rest)
    with Cons.IH[of rest] Cons.prems show ?thesis
      by (auto simp: count_marked_def)
  qed
qed

lemma marked_elsewhere_count:
  "list_all (\<lambda>b. status b \<noteq> Some CORRECT) bs \<Longrightarrow>
   length (filter (\<lambda>b. name b = k \<and> status b \<noteq> Some CORRECT)
     (map (\<lambda>(b, ch). if [ch] = name b then b\<lparr>status := Some CORRECT\<rparr> else b) (zip bs sol)))
   = count_elsewhere sol k (map name bs)"
proof (induction bs arbitrary: sol)
  case Nil
  then show ?case by (simp add: count_elsewhere_def)
next
  case (Cons b bs)
  show ?case
  proof (cases sol)
    case Nil
    then show ?thesis by (simp add: count_elsewhere_def)
  next
    case (Cons ch rest)
    with Cons.IH[of rest] Cons.prems show ?thesis
      by (auto simp: count_elsewhere_def)
  qed
qed

lemma marked_correct_nth:
  assumes "list_all (\<lambda>b. status b \<noteq> Some CORRECT) bs" and "i < length bs" and "i < length sol"
  shows "status (map (\<lambda>(b, ch). if [ch] = name b then b\<lparr>status := Some CORRECT\<rparr> else b) (zip bs sol) ! i)
            = Some CORRECT \<longleftrightarrow> name (bs ! i) = [sol ! i]"
  using assms by (auto simp: list_all_length)

lemma pass2_correct_nth:
  "i < length bs \<Longrightarrow> status (pass2 c bs ! i) = Some CORRECT \<longleftrightarrow> status (bs ! i) = Some CORRECT"
  using arg_cong[OF pass2_correct[of c bs], of "\<lambda>xs. xs ! i"] by simp

text \<open>
  C2. \<open>check_solution\<close> on a row that has not been scored yet, against a solution of
  the row's length, raises nothing and leaves the letters of the row as they were. For
  every letter \<open>k\<close>, the cells marked Correct or Present that hold \<open>k\<close> are at most the
  occurrences of \<open>k\<close> in the solution. A cell is Correct exactly when its letter is the
  solution's letter at that position, and the Present marks for \<open>k\<close> are the minimum of
  the supply left once every Correct cell has taken its share and of the cells that hold
  \<open>k\<close> elsewhere: exact matches consume the supply first.
\<close>

theorem scoring_respects_multiplicity:
  assumes wf: "wf_view g" and len: "length sol = COLUMN_SIZE"
    and fresh: "list_all (\<lambda>b. status b \<noteq> Some CORRECT) (current_guess g)"
  shows "\<exists>g' r. check_solution g sol = Inr (g', r) \<and>
     map name (submitted_row g g') = current_word g \<and>
     (\<forall>k. int (count_marked CORRECT k (submitted_row g g')
                + count_marked PRESENT k (submitted_row g g')) \<le> Counter sol k) \<and>
     (\<forall>i<COLUMN_SIZE. status (submitted_row g g' ! i) = Some CORRECT
                         \<longleftrightarrow> current_word g ! i = [sol ! i]) \<and>
     (\<forall>k. int (count_marked PRESENT k (submitted_row g g')) =
            min (Counter sol k - int (count_marked CORRECT k (submitted_row g g')))
                (int (count_elsewhere sol k (current_word g))))"
proof -
  let ?bs = "current_guess g"
  let ?bs1 = "map (\<lambda>(b, ch). if [ch] = name b then b\<lparr>status := Some CORRECT\<rparr> else b) (zip ?bs sol)"
  from check_solution_result[OF wf len] obtain g' r c1 where
    cs: "check_solution g sol = Inr (g', r)" and
    c1: "\<And>k. c1 k = Counter sol k - int (length (filter (\<lambda>(b, ch). name b = k \<and> [ch] = k) (zip ?bs sol)))" and
    row: "submitted_row g g' = pass2 c1 ?bs1"
    by blast
  have lbs: "length ?bs = COLUMN_SIZE" by (rule current_guess_length[OF wf])
  have names1: "map name ?bs1 = map name ?bs"
    using lbs len by (auto intro: nth_equalityI)
  have names: "map name (submitted_row g g') = current_word g"
    unfolding row current_word_def using names1 by simp
  have correct: "count_marked CORRECT k (submitted_row g g') =
      length (filter (\<lambda>(b, ch). name b = k \<and> [ch] = k) (zip ?bs sol))" for k
    unfolding row using marked_correct_count[OF fresh] by simp
  have remaining: "c1 k = Counter sol k - int (count_marked CORRECT k (submitted_row g g'))" for k
    using c1[of k] correct[of k] by simp
  have nonneg: "0 \<le> c1 k" for k
    using c1[of k] exact_matches_le_Counter[of k ?bs sol] by simp
  have present: "int (count_marked PRESENT k (submitted_row g g')) =
      min (c1 k) (int (count_elsewhere sol k (current_word g)))" for k
    unfolding row pass2_count_present marked_elsewhere_count[OF fresh] current_word_def
    using nonneg[of k] by simp
  have bound: "int (count_marked CORRECT k (submitted_row g g')
                + count_marked PRESENT k (submitted_row g g')) \<le> Counter sol k" for k
    using present[of k] remaining[of k] by simp
  have exact: "status (submitted_row g g' ! i) = Some CORRECT \<longleftrightarrow> current_word g ! i = [sol ! i]"
    if "i < COLUMN_SIZE" for i
  proof -
    have "status (submitted_row g g' ! i) = Some CORRECT \<longleftrightarrow> status (?bs1 ! i) = Some CORRECT"
      unfolding row using that lbs len by (simp add: pass2_correct_nth)
    also have "\<dots> \<longleftrightarrow> name (?bs ! i) = [sol ! i]"
      using marked_correct_nth[OF fresh, of i sol] that lbs len by simp
    also have "\<dots> \<longleftrightarrow> current_word g ! i = [sol ! i]"
      using that lbs by (simp add: current_word_def)
    finally show ?thesis .
  qed
  show ?thesis
    using cs names bound exact present remaining by auto
qed

text \<open>The theorem at the guess LLAMA against the solution ALLOW, for the letters L and A.\<close>

theorem scoring_respects_multiplicity_witness:
  "wf_view (view_with ''LLAMA'') \<and>
   length ''ALLOW'' = COLUMN_SIZE \<and>
   list_all (\<lambda>b. status b \<noteq> Some CORRECT) (current_guess (view_with ''LLAMA'')) \<and>
   (\<exists>g' r. check_solution (view_with ''LLAMA'') ''ALLOW'' = Inr (g', r) \<and>
      int (count_marked CORRECT ''L'' (submitted_row (view_with ''LLAMA'') g')
           + count_marked PRESENT ''L'' (submitted_row (view_with ''LLAMA'') g'))
        \<le> Counter ''ALLOW'' ''L'' \<and>
      int (count_marked PRESENT ''A'' (submitted_row (view_with ''LLAMA'') g')) =
        min (Counter ''ALLOW'' ''A''
             - int (count_marked CORRECT ''A'' (submitted_row (view_with ''LLAMA'') g')))
            (int (count_elsewhere ''ALLOW'' ''A'' (current_word (view_with ''LLAMA'')))))"
  (is "?wf \<and> ?len \<and> ?fresh \<and> ?concl")
proof -
  have h1: ?wf by code_simp
  have h2: ?len by code_simp
  have h3: ?fresh by code_simp
  from scoring_respects_multiplicity[OF h1 h2 h3] have ?concl by blast
  with h1 h2 h3 show ?thesis by blast
qed

section \<open>A winning submission\<close>

lemma partition_chunks_length:
  "0 < n \<Longrightarrow> length (partition_chunks l n) = (length l + n - 1) div n"
proof (induction l n rule: partition_chunks.induct)
  case (1 l sz)
  show ?case
  proof (cases "l = []")
    case True
    with 1 show ?thesis by (simp add: partition_chunks.simps)
  next
    case False
    with 1 have ne: "take sz l \<noteq> []" by simp
    have step: "length (partition_chunks l sz) = Suc (length (partition_chunks (drop sz l) sz))"
      using ne by (subst partition_chunks.simps) simp
    have ih: "length (partition_chunks (drop sz l) sz) = (length l - sz + sz - 1) div sz"
      using 1 ne by simp
    have pos: "0 < length l" using False by simp
    have "(length l + sz - 1) div sz = ((length l - 1) + sz) div sz"
      using pos by (intro arg_cong[where f="\<lambda>x. x div sz"]) linarith
    also have "\<dots> = Suc ((length l - 1) div sz)"
      using 1(2) div_add_self2[of sz "length l - 1"] by simp
    finally have whole: "(length l + sz - 1) div sz = Suc ((length l - 1) div sz)" .
    have rest: "(length l - sz + sz - 1) div sz = (length l - 1) div sz"
    proof (cases "sz \<le> length l")
      case True
      then show ?thesis by simp
    next
      case False
      then have "length l - sz + sz - 1 = sz - 1" by linarith
      moreover have "(sz - 1) div sz = 0" using 1(2) by simp
      moreover have "(length l - 1) div sz = 0" using False pos by simp
      ultimately show ?thesis by (simp only:)
    qed
    show ?thesis by (simp only: step ih whole rest)
  qed
qed

lemma valid_guesses_filled_prefix:
  assumes n: "n \<le> length (slots g)"
    and filled: "\<forall>i<n. name (slots g ! i) \<noteq> []"
    and empty: "n < length (slots g) \<longrightarrow> name (slots g ! n) = []"
  shows "length (valid_guesses g) = (n + COLUMN_SIZE - 1) div COLUMN_SIZE"
proof -
  have "takeWhile (\<lambda>x. name x \<noteq> []) (slots g) = take n (slots g)"
    using filled empty by (intro takeWhile_eq_take_P_nth) auto
  then show ?thesis
    using n by (simp add: valid_guesses_def partition_chunks_length COLUMN_SIZE_def min_def)
qed

lemma check_solution_names:
  assumes wf: "wf_view g" and len: "length sol = COLUMN_SIZE"
    and cs: "check_solution g sol = Inr (g', r)"
  shows "map name (submitted_row g g') = current_word g"
proof -
  let ?bs = "current_guess g"
  let ?bs1 = "map (\<lambda>(b, ch). if [ch] = name b then b\<lparr>status := Some CORRECT\<rparr> else b) (zip ?bs sol)"
  from check_solution_result[OF wf len] cs obtain c1 where
    row: "submitted_row g g' = pass2 c1 ?bs1" by auto
  have "length ?bs = COLUMN_SIZE" by (rule current_guess_length[OF wf])
  then have "map name ?bs1 = map name ?bs"
    using len by (auto intro: nth_equalityI)
  then show ?thesis unfolding row current_word_def by simp
qed

lemma submitted_row_nth:
  assumes "wf_view g" and "length (slots g') = length (slots g)" and "j < COLUMN_SIZE"
  shows "submitted_row g g' ! j = slots g' ! (row_start g + j)"
  using assms row_start_bounds(3)[of g] by (simp add: submitted_row_def)

lemma current_word_length: "wf_view g \<Longrightarrow> length (current_word g) = COLUMN_SIZE"
  by (simp add: current_word_def current_guess_length)

text \<open>
  C9. When the row equals the solution, \<open>check_solution\<close> returns \<open>True\<close> before the
  step that moves the cursor: the cursor stays where it was, in the winning row, and,
  the rows before being full and the rows after empty, \<open>valid_guesses\<close> has as many
  rows as were used, the winning row being the last.
\<close>

theorem winning_submission_keeps_cursor:
  assumes wf: "wf_view g" and rows: "rows_invariant g"
    and win: "list_of_str sol = current_word g"
  shows "\<exists>g'. check_solution g sol = Inr (g', Some True) \<and>
           current g' = current g \<and>
           length (valid_guesses g') = current g div COLUMN_SIZE + 1"
proof -
  have len: "length sol = COLUMN_SIZE"
    using arg_cong[OF win, of length] current_word_length[OF wf] by (simp add: list_of_str_def)
  from check_solution_result[OF wf len] win obtain g' where
    cs: "check_solution g sol = Inr (g', Some True)" and
    cur: "current g' = current g" and
    sl: "length (slots g') = length (slots g)" and
    other: "\<And>i. i < row_start g \<or> row_start g + COLUMN_SIZE \<le> i \<Longrightarrow> slots g' ! i = slots g ! i"
    by auto
  have names: "map name (submitted_row g g') = list_of_str sol"
    using check_solution_names[OF wf len cs] win by simp
  let ?n = "row_start g + COLUMN_SIZE"
  note b = row_start_bounds[OF wf]
  have n: "?n \<le> length (slots g')" using b sl by simp
  have filled: "\<forall>i<?n. name (slots g' ! i) \<noteq> []"
  proof (intro allI impI)
    fix i assume i: "i < ?n"
    show "name (slots g' ! i) \<noteq> []"
    proof (cases "i < row_start g")
      case True
      with rows other[of i] show ?thesis by (simp add: rows_invariant_def)
    next
      case False
      then have j: "i - row_start g < COLUMN_SIZE" and ij: "row_start g + (i - row_start g) = i"
        using i by simp_all
      have "name (slots g' ! i) = map name (submitted_row g g') ! (i - row_start g)"
        using submitted_row_nth[OF wf sl j] ij j sl b
        by (simp add: submitted_row_def)
      also have "\<dots> = [sol ! (i - row_start g)]"
        unfolding names using j len by (simp add: list_of_str_def)
      finally show ?thesis by simp
    qed
  qed
  have empty: "?n < length (slots g') \<longrightarrow> name (slots g' ! ?n) = []"
    using rows other[of ?n] sl by (simp add: rows_invariant_def)
  have "length (valid_guesses g') = (?n + COLUMN_SIZE - 1) div COLUMN_SIZE"
    by (rule valid_guesses_filled_prefix[OF n filled empty])
  also have "\<dots> = current g div COLUMN_SIZE + 1"
    by (simp add: row_start_def COLUMN_SIZE_def)
  finally show ?thesis using cs cur by blast
qed

text \<open>A win on the first row: the cursor stays on cell 4 and one row counts as used.\<close>

theorem winning_submission_keeps_cursor_witness:
  "wf_view (view_with ''ALLOW'') \<and> rows_invariant (view_with ''ALLOW'') \<and>
   list_of_str ''ALLOW'' = current_word (view_with ''ALLOW'') \<and>
   (\<exists>g'. check_solution (view_with ''ALLOW'') ''ALLOW'' = Inr (g', Some True) \<and>
         current g' = 4 \<and> length (valid_guesses g') = 1)"
  (is "?wf \<and> ?rows \<and> ?win \<and> ?concl")
proof -
  have h1: ?wf by code_simp
  have h2: ?rows by code_simp
  have h3: ?win by code_simp
  have c: "current (view_with ''ALLOW'') = 4" by code_simp
  from winning_submission_keeps_cursor[OF h1 h2 h3] have ?concl
    unfolding c by (simp add: COLUMN_SIZE_def)
  with h1 h2 h3 show ?thesis by blast
qed

section \<open>Submitting a row\<close>

lemma save_statistics_message:
  "save_statistics a = Inr a' \<Longrightarrow> message a' = message a"
  by (auto simp: save_statistics_def Let_def split: sum.splits if_splits)

lemma save_statistics_frame:
  "save_statistics a = Inr a' \<Longrightarrow>
   guess a' = guess a \<and> buttons a' = buttons a \<and> result a' = result a \<and>
   solution a' = solution a \<and> index a' = index a"
  by (auto simp: save_statistics_def Let_def split: sum.splits if_splits)

lemma show_result_not_error_message:
  "message (show_result a) \<noteq> ''Not enough letters'' \<and> message (show_result a) \<noteq> ''Not in word list''"
  by (simp add: show_result_def)

lemma show_result_frame [simp]:
  "guess (show_result a) = guess a" "buttons (show_result a) = buttons a"
  "result (show_result a) = result a" "self_stats (show_result a) = self_stats a"
  "stats_json (show_result a) = stats_json a" "solution (show_result a) = solution a"
  "index (show_result a) = index a"
  by (simp_all add: show_result_def)

lemma check_input_incomplete:
  "[] \<in> set (current_word (guess a)) \<Longrightarrow>
   check_input La Ta a = Inr (a\<lparr>message := ''Not enough letters''\<rparr>)"
  by (simp add: check_input_def Let_def)

lemma check_input_unknown:
  "[] \<notin> set (current_word (guess a)) \<Longrightarrow>
   lower (concat (current_word (guess a))) \<notin> set Ta \<union> set La \<Longrightarrow>
   check_input La Ta a = Inr (a\<lparr>message := ''Not in word list''\<rparr>)"
  by (simp add: check_input_def Let_def)

lemma check_input_scored:
  assumes "[] \<notin> set (current_word (guess a))"
    and "lower (concat (current_word (guess a))) \<in> set Ta \<union> set La"
    and "check_input La Ta a = Inr a'"
  shows "\<exists>g' r bts.
           check_solution (guess a) (solution a) = Inr (g', r) \<and>
           update_buttons (buttons a) (submitted_row (guess a) g') = Inr bts \<and>
           (if r = None then a' = a\<lparr>guess := g', result := r, buttons := bts\<rparr>
            else save_statistics (show_result (a\<lparr>guess := g', result := r, buttons := bts\<rparr>)) = Inr a')"
  using assms
  by (auto simp: check_input_def Let_def submitted_row_def split: sum.splits prod.splits if_splits)

lemma check_input_scored_message:
  assumes "[] \<notin> set (current_word (guess a))"
    and "lower (concat (current_word (guess a))) \<in> set Ta \<union> set La"
    and "check_input La Ta a = Inr a'"
  shows "message a' = message a \<or>
         (message a' \<noteq> ''Not enough letters'' \<and> message a' \<noteq> ''Not in word list'')"
proof -
  from check_input_scored[OF assms] obtain g' r bts where
    fin: "if r = None then a' = a\<lparr>guess := g', result := r, buttons := bts\<rparr>
          else save_statistics (show_result (a\<lparr>guess := g', result := r, buttons := bts\<rparr>)) = Inr a'"
    by blast
  show ?thesis
  proof (cases "r = None")
    case True
    with fin show ?thesis by simp
  next
    case False
    with fin have "message a' = message (show_result (a\<lparr>guess := g', result := r, buttons := bts\<rparr>))"
      by (simp add: save_statistics_message)
    then show ?thesis using show_result_not_error_message by metis
  qed
qed

text \<open>
  C4. \<open>check_input\<close> reports "Not enough letters" when a cell of the current row is
  empty, and otherwise "Not in word list" when the lower-cased word is in neither list.
  In both cases it raises nothing and the application is as before but for the message:
  the view (letters, statuses, cursor), the keyboard, the result and the statistics are
  unchanged. Called with the message cleared, as \<open>on_key\<close> does, it leaves one of the two
  messages exactly in the corresponding case.
\<close>

theorem submit_validation:
  "([] \<in> set (current_word (guess a)) \<longrightarrow>
      check_input La Ta a = Inr (a\<lparr>message := ''Not enough letters''\<rparr>)) \<and>
   ([] \<notin> set (current_word (guess a)) \<and>
    lower (concat (current_word (guess a))) \<notin> set Ta \<union> set La \<longrightarrow>
      check_input La Ta a = Inr (a\<lparr>message := ''Not in word list''\<rparr>)) \<and>
   (\<forall>a'. message a = [] \<and> check_input La Ta a = Inr a' \<longrightarrow>
      (message a' = ''Not enough letters'' \<longleftrightarrow> [] \<in> set (current_word (guess a))) \<and>
      (message a' = ''Not in word list'' \<longleftrightarrow>
         [] \<notin> set (current_word (guess a)) \<and>
         lower (concat (current_word (guess a))) \<notin> set Ta \<union> set La))"
proof (intro conjI allI impI)
  assume "[] \<in> set (current_word (guess a))"
  then show "check_input La Ta a = Inr (a\<lparr>message := ''Not enough letters''\<rparr>)"
    by (rule check_input_incomplete)
next
  assume "[] \<notin> set (current_word (guess a)) \<and>
          lower (concat (current_word (guess a))) \<notin> set Ta \<union> set La"
  then show "check_input La Ta a = Inr (a\<lparr>message := ''Not in word list''\<rparr>)"
    using check_input_unknown by blast
next
  fix a' assume h: "message a = [] \<and> check_input La Ta a = Inr a'"
  consider (inc) "[] \<in> set (current_word (guess a))"
    | (unk) "[] \<notin> set (current_word (guess a))" "lower (concat (current_word (guess a))) \<notin> set Ta \<union> set La"
    | (ok) "[] \<notin> set (current_word (guess a))" "lower (concat (current_word (guess a))) \<in> set Ta \<union> set La"
    by blast
  then have "(message a' = ''Not enough letters'' \<longleftrightarrow> [] \<in> set (current_word (guess a))) \<and>
      (message a' = ''Not in word list'' \<longleftrightarrow>
         [] \<notin> set (current_word (guess a)) \<and>
         lower (concat (current_word (guess a))) \<notin> set Ta \<union> set La)"
  proof cases
    case inc
    with h check_input_incomplete[OF inc, of La Ta] show ?thesis by auto
  next
    case unk
    with h check_input_unknown[OF unk, of ] show ?thesis by auto
  next
    case ok
    with h check_input_scored_message[OF ok, of a'] show ?thesis by auto
  qed
  then show "message a' = ''Not enough letters'' \<longleftrightarrow> [] \<in> set (current_word (guess a))"
    and "message a' = ''Not in word list'' \<longleftrightarrow>
         [] \<notin> set (current_word (guess a)) \<and>
         lower (concat (current_word (guess a))) \<notin> set Ta \<union> set La"
    by blast+
qed

text \<open>An empty row is incomplete; LLAMA is refused when it is in neither list.\<close>

theorem submit_validation_witness:
  "[] \<in> set (current_word (guess (new_app ''ALLOW'' (GuessView_on_mount GuessView_init)))) \<and>
   check_input [''allow''] [''llama''] (new_app ''ALLOW'' (GuessView_on_mount GuessView_init)) =
     Inr ((new_app ''ALLOW'' (GuessView_on_mount GuessView_init))\<lparr>message := ''Not enough letters''\<rparr>) \<and>
   [] \<notin> set (current_word (guess (new_app ''ALLOW'' (view_with ''LLAMA'')))) \<and>
   lower (concat (current_word (guess (new_app ''ALLOW'' (view_with ''LLAMA''))))) \<notin> set [''aback''] \<union> set [''allow''] \<and>
   check_input [''allow''] [''aback''] (new_app ''ALLOW'' (view_with ''LLAMA'')) =
     Inr ((new_app ''ALLOW'' (view_with ''LLAMA''))\<lparr>message := ''Not in word list''\<rparr>)"
  (is "?h1 \<and> ?c1 \<and> ?h2 \<and> ?h3 \<and> ?c2")
proof -
  have h1: ?h1 by code_simp
  have h2: ?h2 by code_simp
  have h3: ?h3 by code_simp
  have c1: ?c1 using submit_validation[where a="new_app ''ALLOW'' (GuessView_on_mount GuessView_init)" and La="[''allow'']" and Ta="[''llama'']"] h1 by blast
  have c2: ?c2 using submit_validation[where a="new_app ''ALLOW'' (view_with ''LLAMA'')" and La="[''allow'']" and Ta="[''aback'']"] h2 h3 by blast
  from h1 c1 h2 h3 c2 show ?thesis by blast
qed

section \<open>The keyboard\<close>

lemma key_status_update:
  "key_status (bts(n \<mapsto> button)) k = (if k = n then status button else key_status bts k)"
  by (simp add: key_status_def)

lemma rank_after_max:
  assumes "bts n = Some button" and "0 \<le> s"
  shows "state_rank (Some (max (status_or_0 button) s)) = max (state_rank (key_status bts n)) s"
  using assms by (auto simp: state_rank_def key_status_def status_or_0_def split: option.splits)

lemma rank_after_max_ge:
  assumes "bts n = Some button"
  shows "state_rank (key_status bts n) \<le> state_rank (Some (max (status_or_0 button) s))"
  using assms by (auto simp: state_rank_def key_status_def status_or_0_def split: option.splits)

lemma update_buttons_rank:
  assumes "update_buttons bts ls = Inr bts'"
    and "\<forall>l \<in> set ls. \<forall>s. status l = Some s \<longrightarrow> 0 \<le> s"
  shows "state_rank (key_status bts' k) =
           fold max (map (\<lambda>l. state_rank (status l)) (filter (\<lambda>l. name l = k) ls))
                (state_rank (key_status bts k))"
  using assms
proof (induction ls arbitrary: bts)
  case Nil
  then show ?case by simp
next
  case (Cons l ls)
  from Cons.prems(1) obtain button s where
    b: "bts (name l) = Some button" and s: "status l = Some s" and
    rest: "update_buttons (bts(name l \<mapsto> button\<lparr>status := Some (max (status_or_0 button) s)\<rparr>)) ls = Inr bts'"
    by (auto split: option.splits)
  from Cons.prems(2) s have nonneg: "0 \<le> s" by simp
  let ?bts1 = "bts(name l \<mapsto> button\<lparr>status := Some (max (status_or_0 button) s)\<rparr>)"
  have ih: "state_rank (key_status bts' k) =
           fold max (map (\<lambda>l. state_rank (status l)) (filter (\<lambda>l. name l = k) ls))
                (state_rank (key_status ?bts1 k))"
  proof (rule Cons.IH[OF rest])
    show "\<forall>l \<in> set ls. \<forall>s. status l = Some s \<longrightarrow> 0 \<le> s"
      using Cons.prems(2) by simp
  qed
  show ?case
  proof (cases "name l = k")
    case True
    have "state_rank (key_status ?bts1 k) = max (state_rank (key_status bts k)) s"
      using rank_after_max[where bts=bts and n="name l", OF b nonneg] True by (simp add: key_status_update)
    then show ?thesis using ih True s by (simp add: state_rank_def max.commute)
  next
    case False
    then have "key_status ?bts1 k = key_status bts k" by (auto simp: key_status_update)
    then show ?thesis using ih False by simp
  qed
qed

lemma fold_max_Max:
  fixes a :: int
  shows "fold max xs a = Max (insert a (set xs))"
  using Max.set_eq_fold[of a xs] by simp

lemma update_buttons_mono:
  assumes "update_buttons bts ls = Inr bts'"
  shows "state_rank (key_status bts k) \<le> state_rank (key_status bts' k)"
  using assms
proof (induction ls arbitrary: bts)
  case Nil
  then show ?case by simp
next
  case (Cons l ls)
  from Cons.prems(1) obtain button s where
    b: "bts (name l) = Some button" and s: "status l = Some s" and
    rest: "update_buttons (bts(name l \<mapsto> button\<lparr>status := Some (max (status_or_0 button) s)\<rparr>)) ls = Inr bts'"
    by (auto split: option.splits)
  let ?bts1 = "bts(name l \<mapsto> button\<lparr>status := Some (max (status_or_0 button) s)\<rparr>)"
  have "state_rank (key_status bts k) \<le> state_rank (key_status ?bts1 k)"
    using rank_after_max_ge[where bts=bts and n="name l", OF b, of s] by (auto simp: key_status_update)
  also have "\<dots> \<le> state_rank (key_status bts' k)"
    by (rule Cons.IH[OF rest])
  finally show ?case .
qed

lemma update_buttons_keeps_correct:
  assumes "update_buttons bts ls = Inr bts'"
    and "\<forall>l \<in> set ls. \<forall>s. status l = Some s \<longrightarrow> s \<le> CORRECT"
    and "key_status bts k = Some CORRECT"
  shows "key_status bts' k = Some CORRECT"
  using assms
proof (induction ls arbitrary: bts)
  case Nil
  then show ?case by simp
next
  case (Cons l ls)
  from Cons.prems(1) obtain button s where
    b: "bts (name l) = Some button" and s: "status l = Some s" and
    rest: "update_buttons (bts(name l \<mapsto> button\<lparr>status := Some (max (status_or_0 button) s)\<rparr>)) ls = Inr bts'"
    by (auto split: option.splits)
  let ?bts1 = "bts(name l \<mapsto> button\<lparr>status := Some (max (status_or_0 button) s)\<rparr>)"
  from Cons.prems(2) s have le: "s \<le> CORRECT" by simp
  have p2: "\<forall>l \<in> set ls. \<forall>s. status l = Some s \<longrightarrow> s \<le> CORRECT"
    using Cons.prems(2) by simp
  have "key_status ?bts1 k = Some CORRECT"
    using Cons.prems(3) b le
    by (auto simp: key_status_update key_status_def status_or_0_def max_def)
  then show ?case by (rule Cons.IH[OF rest p2])
qed

lemma update_buttons_dom:
  "update_buttons bts ls = Inr bts' \<Longrightarrow> dom bts' = dom bts"
proof (induction ls arbitrary: bts)
  case Nil
  then show ?case by simp
next
  case (Cons l ls)
  from Cons.prems(1) obtain button s where
    b: "bts (name l) = Some button" and
    rest: "update_buttons (bts(name l \<mapsto> button\<lparr>status := Some (max (status_or_0 button) s)\<rparr>)) ls = Inr bts'"
    by (auto split: option.splits)
  have "dom bts' = dom (bts(name l \<mapsto> button\<lparr>status := Some (max (status_or_0 button) s)\<rparr>))"
    by (rule Cons.IH[OF rest])
  also have "\<dots> = dom bts" using b by auto
  finally show ?case .
qed

lemma submitted_statuses:
  assumes wf: "wf_view g" and len: "length sol = COLUMN_SIZE"
    and cs: "check_solution g sol = Inr (g', r)"
  shows "list_all (\<lambda>b. status b \<in> {Some ABSENT, Some PRESENT, Some CORRECT}) (submitted_row g g')"
proof -
  from check_solution_result[OF wf len] cs obtain c1 bs1 where
    "submitted_row g g' = pass2 c1 bs1" by auto
  then show ?thesis using pass2_statuses[of c1 bs1] by (simp only:)
qed

lemma check_solution_wf:
  assumes wf: "wf_view g" and len: "length sol = COLUMN_SIZE"
    and cs: "check_solution g sol = Inr (g', r)"
  shows "wf_view g'"
proof -
  from check_solution_result[OF wf len] cs have
    "length (slots g') = length (slots g)" and
    "current g' = (if list_of_str sol \<noteq> current_word g \<and> current g < COLUMN_SIZE * ROW_SIZE - 1
                   then current g + 1 else current g)"
    by auto
  with wf show ?thesis by (auto simp: wf_view_def)
qed

lemma input_letter_wf:
  "wf_view g \<Longrightarrow> input_letter g l = Inr g' \<Longrightarrow> wf_view g'"
  by (auto simp: input_letter_def wf_view_def split: if_splits)

lemma backspace_letter_wf:
  "wf_view g \<Longrightarrow> backspace_letter g = Inr g' \<Longrightarrow> wf_view g'"
  by (auto simp: backspace_letter_def wf_view_def split: if_splits)

lemma check_input_keyboard:
  assumes wf: "wf_view (guess a)" and len: "length (solution a) = COLUMN_SIZE"
    and ci: "check_input La Ta a = Inr a'"
  shows "wf_view (guess a') \<and> solution a' = solution a \<and>
         state_rank (key_status (buttons a) k) \<le> state_rank (key_status (buttons a') k) \<and>
         (key_status (buttons a) k = Some CORRECT \<longrightarrow> key_status (buttons a') k = Some CORRECT)"
proof -
  consider (inc) "[] \<in> set (current_word (guess a))"
    | (unk) "[] \<notin> set (current_word (guess a))" "lower (concat (current_word (guess a))) \<notin> set Ta \<union> set La"
    | (ok) "[] \<notin> set (current_word (guess a))" "lower (concat (current_word (guess a))) \<in> set Ta \<union> set La"
    by blast
  then show ?thesis
  proof cases
    case inc
    from check_input_incomplete[OF inc, of La Ta] ci wf show ?thesis by auto
  next
    case unk
    from check_input_unknown[OF unk] ci wf show ?thesis by auto
  next
    case ok
    from check_input_scored[OF ok ci] obtain g' r bts where
      cs: "check_solution (guess a) (solution a) = Inr (g', r)" and
      ub: "update_buttons (buttons a) (submitted_row (guess a) g') = Inr bts" and
      fin: "if r = None then a' = a\<lparr>guess := g', result := r, buttons := bts\<rparr>
            else save_statistics (show_result (a\<lparr>guess := g', result := r, buttons := bts\<rparr>)) = Inr a'"
      by blast
    have a': "guess a' = g' \<and> buttons a' = bts \<and> solution a' = solution a"
    proof (cases "r = None")
      case True
      with fin show ?thesis by simp
    next
      case False
      with fin save_statistics_frame[of "show_result (a\<lparr>guess := g', result := r, buttons := bts\<rparr>)" a']
      show ?thesis by simp
    qed
    have st: "\<forall>l \<in> set (submitted_row (guess a) g'). \<forall>s. status l = Some s \<longrightarrow> s \<le> CORRECT"
      using submitted_statuses[OF wf len cs]
      by (auto simp: list_all_iff CORRECT_def PRESENT_def ABSENT_def)
    show ?thesis
      using a' check_solution_wf[OF wf len cs] update_buttons_mono[OF ub, of k]
        update_buttons_keeps_correct[OF ub st, of k]
      by simp
  qed
qed

lemma copy_result_frame:
  "copy_result a = Inr a' \<Longrightarrow>
   guess a' = guess a \<and> buttons a' = buttons a \<and> solution a' = solution a \<and>
   self_stats a' = self_stats a \<and> stats_json a' = stats_json a \<and> result a' = result a"
  by (auto simp: copy_result_def split: if_splits)

lemma on_key_keyboard:
  assumes wf: "wf_view (guess a)" and len: "length (solution a) = COLUMN_SIZE"
    and ok: "on_key La Ta a key = Inr a'"
  shows "wf_view (guess a') \<and> solution a' = solution a \<and>
         state_rank (key_status (buttons a) k) \<le> state_rank (key_status (buttons a') k) \<and>
         (key_status (buttons a) k = Some CORRECT \<longrightarrow> key_status (buttons a') k = Some CORRECT)"
proof (cases "result a \<noteq> None")
  case True
  with ok wf show ?thesis
    by (auto simp: on_key_def split: if_splits dest: copy_result_frame)
next
  case False
  let ?a1 = "a\<lparr>message := []\<rparr>"
  have wf1: "wf_view (guess ?a1)" and len1: "length (solution ?a1) = COLUMN_SIZE"
    using wf len by simp_all
  consider (letter) "sublist key ascii_letters"
    | (enter) "\<not> sublist key ascii_letters" "key = ''enter''"
    | (bs) "\<not> sublist key ascii_letters" "key \<noteq> ''enter''" "key = ''ctrl+h''"
    | (other) "\<not> sublist key ascii_letters" "key \<noteq> ''enter''" "key \<noteq> ''ctrl+h''"
    by blast
  then show ?thesis
  proof cases
    case letter
    with ok False obtain g where "input_letter (guess a) (upper key) = Inr g" "a' = ?a1\<lparr>guess := g\<rparr>"
      by (auto simp: on_key_def Let_def split: sum.splits)
    with input_letter_wf[OF wf] show ?thesis by simp
  next
    case enter
    with ok False have "check_input La Ta ?a1 = Inr a'"
      by (simp add: on_key_def Let_def)
    from check_input_keyboard[OF wf1 len1 this, of k] show ?thesis by simp
  next
    case bs
    with ok False obtain g where "backspace_letter (guess a) = Inr g" "a' = ?a1\<lparr>guess := g\<rparr>"
      by (auto simp: on_key_def Let_def split: sum.splits)
    with backspace_letter_wf[OF wf] show ?thesis by simp
  next
    case other
    with ok False have "a' = ?a1" by (simp add: on_key_def Let_def)
    with wf show ?thesis by simp
  qed
qed

lemma run_keys_keyboard:
  assumes "run_keys La Ta a keys = Inr a'"
    and "wf_view (guess a)" and "length (solution a) = COLUMN_SIZE"
  shows "state_rank (key_status (buttons a) k) \<le> state_rank (key_status (buttons a') k) \<and>
         (key_status (buttons a) k = Some CORRECT \<longrightarrow> key_status (buttons a') k = Some CORRECT)"
  using assms
proof (induction keys arbitrary: a)
  case Nil
  then show ?case by simp
next
  case (Cons key keys)
  from Cons.prems(1) obtain a1 where
    k1: "on_key La Ta a key = Inr a1" and rest: "run_keys La Ta a1 keys = Inr a'"
    by (auto split: sum.splits)
  from on_key_keyboard[OF Cons.prems(2,3) k1, of k] have
    wf1: "wf_view (guess a1)" and len1: "length (solution a1) = COLUMN_SIZE" and
    le1: "state_rank (key_status (buttons a) k) \<le> state_rank (key_status (buttons a1) k)" and
    c1: "key_status (buttons a) k = Some CORRECT \<longrightarrow> key_status (buttons a1) k = Some CORRECT"
    using Cons.prems(3) by simp_all
  from Cons.IH[OF rest wf1 len1] le1 c1 show ?case by auto
qed

text \<open>
  C6. In the order Unknown, Absent, Present, Correct, the state of every key after a
  scored submission is the maximum of its state before and of the statuses that the
  submitted row gives to that letter. Hence, through any sequence of key events, the
  state of a key never decreases, and a key that is Correct stays Correct.
\<close>

theorem keyboard_aggregation:
  assumes wf: "wf_view (guess a)" and len: "length (solution a) = COLUMN_SIZE"
  shows "(\<forall>a' k. [] \<notin> set (current_word (guess a)) \<and>
                 lower (concat (current_word (guess a))) \<in> set Ta \<union> set La \<and>
                 check_input La Ta a = Inr a' \<longrightarrow>
            state_rank (key_status (buttons a') k) =
              Max (insert (state_rank (key_status (buttons a) k))
                     ((\<lambda>l. state_rank (status l)) `
                        {l \<in> set (submitted_row (guess a) (guess a')). name l = k}))) \<and>
         (\<forall>keys a' k. run_keys La Ta a keys = Inr a' \<longrightarrow>
            state_rank (key_status (buttons a) k) \<le> state_rank (key_status (buttons a') k) \<and>
            (key_status (buttons a) k = Some CORRECT \<longrightarrow> key_status (buttons a') k = Some CORRECT))"
proof (intro conjI allI impI)
  fix a' k
  assume h: "[] \<notin> set (current_word (guess a)) \<and>
             lower (concat (current_word (guess a))) \<in> set Ta \<union> set La \<and>
             check_input La Ta a = Inr a'"
  then have full: "[] \<notin> set (current_word (guess a))"
    and valid: "lower (concat (current_word (guess a))) \<in> set Ta \<union> set La"
    and ci: "check_input La Ta a = Inr a'" by simp_all
  from check_input_scored[OF full valid ci] obtain g' r bts where
    cs: "check_solution (guess a) (solution a) = Inr (g', r)" and
    ub: "update_buttons (buttons a) (submitted_row (guess a) g') = Inr bts" and
    fin: "if r = None then a' = a\<lparr>guess := g', result := r, buttons := bts\<rparr>
          else save_statistics (show_result (a\<lparr>guess := g', result := r, buttons := bts\<rparr>)) = Inr a'"
    by blast
  have a': "guess a' = g' \<and> buttons a' = bts"
  proof (cases "r = None")
    case True
    with fin show ?thesis by simp
  next
    case False
    with fin save_statistics_frame[of "show_result (a\<lparr>guess := g', result := r, buttons := bts\<rparr>)" a']
    show ?thesis by simp
  qed
  have st: "\<forall>l \<in> set (submitted_row (guess a) g'). \<forall>s. status l = Some s \<longrightarrow> 0 \<le> s"
    using submitted_statuses[OF wf len cs]
    by (auto simp: list_all_iff CORRECT_def PRESENT_def ABSENT_def)
  have "state_rank (key_status bts k) =
          fold max (map (\<lambda>l. state_rank (status l)) (filter (\<lambda>l. name l = k) (submitted_row (guess a) g')))
               (state_rank (key_status (buttons a) k))"
    by (rule update_buttons_rank[OF ub st])
  also have "\<dots> = Max (insert (state_rank (key_status (buttons a) k))
                     ((\<lambda>l. state_rank (status l)) ` {l \<in> set (submitted_row (guess a) g'). name l = k}))"
    by (simp add: fold_max_Max)
  finally show "state_rank (key_status (buttons a') k) =
              Max (insert (state_rank (key_status (buttons a) k))
                     ((\<lambda>l. state_rank (status l)) `
                        {l \<in> set (submitted_row (guess a) (guess a')). name l = k}))"
    using a' by simp
next
  fix keys a' k
  assume "run_keys La Ta a keys = Inr a'"
  from run_keys_keyboard[OF this wf len, of k]
  show "state_rank (key_status (buttons a) k) \<le> state_rank (key_status (buttons a') k)"
    and "key_status (buttons a) k = Some CORRECT \<Longrightarrow> key_status (buttons a') k = Some CORRECT"
    by simp_all
qed

text \<open>The key L after the guess LLAMA against ALLOW.\<close>

theorem keyboard_aggregation_witness:
  "wf_view (guess (new_app ''ALLOW'' (view_with ''LLAMA''))) \<and>
   length (solution (new_app ''ALLOW'' (view_with ''LLAMA''))) = COLUMN_SIZE \<and>
   [] \<notin> set (current_word (guess (new_app ''ALLOW'' (view_with ''LLAMA'')))) \<and>
   lower (concat (current_word (guess (new_app ''ALLOW'' (view_with ''LLAMA''))))) \<in> set [''llama''] \<union> set [''allow''] \<and>
   (\<exists>a'. check_input [''allow''] [''llama''] (new_app ''ALLOW'' (view_with ''LLAMA'')) = Inr a' \<and>
      state_rank (key_status (buttons a') ''L'') =
        Max (insert (state_rank (key_status (buttons (new_app ''ALLOW'' (view_with ''LLAMA''))) ''L''))
               ((\<lambda>l. state_rank (status l)) `
                  {l \<in> set (submitted_row (guess (new_app ''ALLOW'' (view_with ''LLAMA''))) (guess a')).
                     name l = ''L''})))"
  (is "?wf \<and> ?len \<and> ?full \<and> ?valid \<and> ?concl")
proof -
  have h1: ?wf by code_simp
  have h2: ?len by code_simp
  have h3: ?full by code_simp
  have h4: ?valid by code_simp
  have "\<not> isl (check_input [''allow''] [''llama''] (new_app ''ALLOW'' (view_with ''LLAMA'')))"
    by code_simp
  then obtain a' where ci: "check_input [''allow''] [''llama''] (new_app ''ALLOW'' (view_with ''LLAMA'')) = Inr a'"
    by (cases "check_input [''allow''] [''llama''] (new_app ''ALLOW'' (view_with ''LLAMA''))") auto
  from keyboard_aggregation[OF h1 h2, where La="[''allow'']" and Ta="[''llama'']"] h3 h4 ci
  have ?concl by blast
  with h1 h2 h3 h4 show ?thesis by blast
qed

text \<open>
  The same session from the key events: L becomes Correct, A Present, M Absent, Q stays
  Unknown, and the cursor moves to the second row.
\<close>

lemma llama_session_keyboard:
  "\<exists>a'. run_keys [''allow''] [''llama''] (new_app ''ALLOW'' (GuessView_on_mount GuessView_init)) [''l'', ''l'', ''a'', ''m'', ''a'', ''enter''] = Inr a' \<and> key_status (buttons a') ''L'' = Some CORRECT \<and> key_status (buttons a') ''M'' = Some ABSENT
  \<and> key_status (buttons a') ''A'' = Some PRESENT \<and> key_status (buttons a') ''Q'' = None \<and> current (guess a') = 5 \<and> result a' = None"
proof -
  have "(case run_keys [''allow''] [''llama''] (new_app ''ALLOW'' (GuessView_on_mount GuessView_init)) [''l'', ''l'', ''a'', ''m'', ''a'', ''enter''] of Inl e \<Rightarrow> False | Inr a' \<Rightarrow> key_status (buttons a') ''L'' = Some CORRECT \<and> key_status (buttons a') ''M'' = Some ABSENT
  \<and> key_status (buttons a') ''A'' = Some PRESENT \<and> key_status (buttons a') ''Q'' = None \<and> current (guess a') = 5 \<and> result a' = None)"
    by code_simp
  then show ?thesis by (auto split: sum.splits)
qed

section \<open>Winning and the end of the game\<close>

lemma upper_lower_all:
  "list_all (\<lambda>c. lower_char (upper_char c) = c \<and> upper_char c \<in> set ascii_uppercase) ascii_lowercase"
  by code_simp

lemma upper_lower_char:
  "c \<in> set ascii_lowercase \<Longrightarrow> lower_char (upper_char c) = c \<and> upper_char c \<in> set ascii_uppercase"
  using upper_lower_all by (simp only: list_all_iff)

lemma lower_upper_word:
  "set w \<subseteq> set ascii_lowercase \<Longrightarrow> lower (upper w) = w"
  by (induction w) (simp_all add: lower_def upper_def upper_lower_char)

lemma upper_word_uppercase:
  "set w \<subseteq> set ascii_lowercase \<Longrightarrow> set (upper w) \<subseteq> set ascii_uppercase"
  using upper_lower_char by (auto simp: upper_def)

lemma concat_list_of_str [simp]: "concat (list_of_str s) = s"
  by (induction s) (simp_all add: list_of_str_def)

lemma empty_notin_list_of_str [simp]: "[] \<notin> set (list_of_str s)"
  by (auto simp: list_of_str_def)

lemma update_buttons_succeeds:
  assumes "\<forall>l \<in> set ls. bts (name l) \<noteq> None \<and> status l \<noteq> None"
  shows "\<exists>bts'. update_buttons bts ls = Inr bts'"
  using assms
proof (induction ls arbitrary: bts)
  case Nil
  then show ?case by simp
next
  case (Cons l ls)
  then obtain button s where b: "bts (name l) = Some button" and s: "status l = Some s" by auto
  let ?bts1 = "bts(name l \<mapsto> button\<lparr>status := Some (max (status_or_0 button) s)\<rparr>)"
  have "\<forall>l \<in> set ls. ?bts1 (name l) \<noteq> None \<and> status l \<noteq> None"
    using Cons.prems by auto
  from Cons.IH[OF this] obtain bts' where "update_buttons ?bts1 ls = Inr bts'" by blast
  with b s show ?case by simp
qed

lemma valid_guesses_length_le:
  assumes "length (slots g) = COLUMN_SIZE * ROW_SIZE"
  shows "length (valid_guesses g) \<le> ROW_SIZE"
proof -
  have "length (takeWhile (\<lambda>x. name x \<noteq> []) (slots g)) \<le> 30"
    using length_takeWhile_le[of "\<lambda>x. name x \<noteq> []" "slots g"] assms
    by (simp add: COLUMN_SIZE_def ROW_SIZE_def)
  then show ?thesis
    by (simp add: valid_guesses_def partition_chunks_length COLUMN_SIZE_def ROW_SIZE_def)
qed

lemma py_index_last_rows:
  assumes "int (length xs) = 6" and "n \<le> 6"
  shows "\<exists>j. py_index xs (int n - 1) = Inr j \<and> j < length xs"
  using assms by (auto simp: py_index_def Let_def)

lemma save_statistics_succeeds:
  assumes "length (stats (self_stats a)) = ROW_SIZE"
    and "length (slots (guess a)) = COLUMN_SIZE * ROW_SIZE"
  shows "\<exists>a'. save_statistics a = Inr a'"
proof -
  have "length (valid_guesses (guess a)) \<le> 6"
    using valid_guesses_length_le[OF assms(2)] by (simp add: ROW_SIZE_def)
  moreover have "int (length (stats ((self_stats a)\<lparr>played := played (self_stats a) + 1\<rparr>))) = 6"
    using assms(1) by (simp add: ROW_SIZE_def)
  ultimately obtain j where
    "py_index (stats ((self_stats a)\<lparr>played := played (self_stats a) + 1\<rparr>))
       (int (length (valid_guesses (guess a))) - 1) = Inr j"
    using py_index_last_rows by blast
  then show ?thesis by (simp add: save_statistics_def Let_def)
qed

lemma save_statistics_played:
  "save_statistics a = Inr a' \<Longrightarrow>
   played (self_stats a') = played (self_stats a) + 2 \<and> stats_json a' = Some (self_stats a') \<and>
   last_played (self_stats a') = Some (index a) \<and> last_result (self_stats a') = Some (result a)"
  by (auto simp: save_statistics_def Let_def split: sum.splits if_splits)

lemma on_key_terminal:
  assumes "result a \<noteq> None" and "on_key La Ta a key = Inr a'"
  shows "guess a' = guess a \<and> buttons a' = buttons a \<and> result a' = result a \<and>
         self_stats a' = self_stats a \<and> stats_json a' = stats_json a"
  using assms by (auto simp: on_key_def split: if_splits dest: copy_result_frame)

text \<open>
  C3. The solution is the upper-cased word \<open>w\<close> of the solution list, a word of
  lower-case letters. When the current row holds the solution, whatever row it is,
  \<open>check_input\<close> raises nothing, marks the five cells Correct and sets the result to
  \<open>True\<close> without moving the cursor; from then on no key event changes the view, the
  keyboard or the result.
\<close>

theorem winning_guess:
  assumes wf: "wf_view (guess a)"
    and row: "current_word (guess a) = list_of_str (solution a)"
    and sol: "solution a = upper w" "w \<in> set La" "set w \<subseteq> set ascii_lowercase"
    and keys: "list_all (\<lambda>c. buttons a [c] \<noteq> None) ascii_uppercase"
    and st: "length (stats (self_stats a)) = ROW_SIZE"
  shows "\<exists>a'. check_input La Ta a = Inr a' \<and>
           result a' = Some True \<and>
           list_all (\<lambda>b. status b = Some CORRECT) (submitted_row (guess a) (guess a')) \<and>
           map name (submitted_row (guess a) (guess a')) = list_of_str (solution a) \<and>
           current (guess a') = current (guess a) \<and>
           (\<forall>key a''. on_key La Ta a' key = Inr a'' \<longrightarrow>
              guess a'' = guess a' \<and> buttons a'' = buttons a' \<and> result a'' = Some True)"
proof -
  let ?g = "guess a"
  have full: "[] \<notin> set (current_word ?g)" using row by simp
  have valid: "lower (concat (current_word ?g)) \<in> set Ta \<union> set La"
    using row sol by (simp add: lower_upper_word)
  have lbs: "length (current_guess ?g) = COLUMN_SIZE" by (rule current_guess_length[OF wf])
  let ?row = "map (\<lambda>b. b\<lparr>status := Some CORRECT\<rparr>) (current_guess ?g)"
  let ?g' = "store_row ?g (row_start ?g) ?row"
  have cs: "check_solution ?g (solution a) = Inr (?g', Some True)"
    using row by (simp add: check_solution_def)
  have sub: "submitted_row ?g ?g' = ?row"
    unfolding submitted_row_def using store_row_submitted[OF wf, of ?row] lbs by simp
  have names: "map name ?row = list_of_str (solution a)"
    using row by (simp add: current_word_def comp_def)
  have all_correct: "list_all (\<lambda>b. status b = Some CORRECT) ?row"
    by (simp add: list_all_iff)
  have "\<forall>l \<in> set ?row. buttons a (name l) \<noteq> None \<and> status l \<noteq> None"
  proof
    fix l assume l: "l \<in> set ?row"
    then have "name l \<in> set (map name ?row)" by (metis image_eqI set_map)
    then have "name l \<in> set (list_of_str (upper w))" by (simp only: names sol(1))
    then obtain c where c: "name l = [c]" "c \<in> set (upper w)" by (auto simp: list_of_str_def)
    with upper_word_uppercase[OF sol(3)] keys have "buttons a (name l) \<noteq> None"
      by (auto simp: list_all_iff)
    moreover from l have "status l \<noteq> None" by auto
    ultimately show "buttons a (name l) \<noteq> None \<and> status l \<noteq> None" by simp
  qed
  from update_buttons_succeeds[OF this] obtain bts where
    ub: "update_buttons (buttons a) ?row = Inr bts" by blast
  let ?a1 = "show_result (a\<lparr>guess := ?g', result := Some True, buttons := bts\<rparr>)"
  have "length (slots (guess ?a1)) = COLUMN_SIZE * ROW_SIZE"
    using store_row_length[OF wf, of ?row] lbs wf by (simp add: wf_view_def)
  moreover have "length (stats (self_stats ?a1)) = ROW_SIZE" using st by simp
  ultimately obtain a' where ss: "save_statistics ?a1 = Inr a'"
    using save_statistics_succeeds[of ?a1] by blast
  have ci: "check_input La Ta a = Inr a'"
    using full valid cs ub ss sub
    by (auto simp: check_input_def Let_def submitted_row_def)
  from save_statistics_frame[OF ss] have
    fr: "guess a' = ?g'" "buttons a' = bts" "result a' = Some True" by simp_all
  have absorbing: "\<forall>key a''. on_key La Ta a' key = Inr a'' \<longrightarrow>
              guess a'' = guess a' \<and> buttons a'' = buttons a' \<and> result a'' = Some True"
    using on_key_terminal[of a' La Ta] fr(3) by auto
  show ?thesis
    using ci fr sub all_correct names absorbing by (intro exI[of _ a']) simp
qed

text \<open>ALLOW typed against the solution ALLOW.\<close>

theorem winning_guess_witness:
  "wf_view (guess (new_app ''ALLOW'' (view_with ''ALLOW''))) \<and>
   current_word (guess (new_app ''ALLOW'' (view_with ''ALLOW''))) =
     list_of_str (solution (new_app ''ALLOW'' (view_with ''ALLOW''))) \<and>
   solution (new_app ''ALLOW'' (view_with ''ALLOW'')) = upper ''allow'' \<and>
   ''allow'' \<in> set [''aback'', ''allow''] \<and>
   set ''allow'' \<subseteq> set ascii_lowercase \<and>
   list_all (\<lambda>c. buttons (new_app ''ALLOW'' (view_with ''ALLOW'')) [c] \<noteq> None) ascii_uppercase \<and>
   length (stats (self_stats (new_app ''ALLOW'' (view_with ''ALLOW'')))) = ROW_SIZE \<and>
   (\<exists>a'. check_input [''aback'', ''allow''] [] (new_app ''ALLOW'' (view_with ''ALLOW'')) = Inr a' \<and>
         result a' = Some True \<and>
         list_all (\<lambda>b. status b = Some CORRECT)
           (submitted_row (guess (new_app ''ALLOW'' (view_with ''ALLOW''))) (guess a')) \<and>
         current (guess a') = current (guess (new_app ''ALLOW'' (view_with ''ALLOW''))))"
  (is "?h1 \<and> ?h2 \<and> ?h3 \<and> ?h4 \<and> ?h5 \<and> ?h6 \<and> ?h7 \<and> ?concl")
proof -
  have h1: ?h1 by code_simp
  have h2: ?h2 by code_simp
  have h3: ?h3 by code_simp
  have h4: ?h4 by code_simp
  have h5: ?h5 by code_simp
  have h6: ?h6 by code_simp
  have h7: ?h7 by code_simp
  from winning_guess[OF h1 h2 h3 h4 h5 h6 h7, where Ta="[]"] have ?concl by blast
  with h1 h2 h3 h4 h5 h6 h7 show ?thesis by blast
qed

section \<open>The statistics at the end of a game\<close>

text \<open>
  On a win \<open>save_statistics\<close> adds one to the entry of the winning row, and it leaves the
  list alone on a loss. The counter \<open>played\<close> goes up by two (lemma
  \<open>save_statistics_played\<close>): once in place, once more in the record that is written
  and merged back.
\<close>

lemma save_statistics_win_stats:
  assumes "save_statistics a = Inr a'" and "result a = Some True"
    and "0 < length (valid_guesses (guess a))"
    and "length (valid_guesses (guess a)) \<le> length (stats (self_stats a))"
  shows "stats (self_stats a') =
           (stats (self_stats a))[length (valid_guesses (guess a)) - 1 :=
              stats (self_stats a) ! (length (valid_guesses (guess a)) - 1) + 1]"
proof -
  let ?n = "length (valid_guesses (guess a))"
  have "py_index (stats ((self_stats a)\<lparr>played := played (self_stats a) + 1\<rparr>)) (int ?n - 1)
          = Inr (?n - 1)"
    using assms(3,4) by (auto simp: py_index_def Let_def)
  with assms(1,2) show ?thesis
    by (auto simp: save_statistics_def Let_def)
qed

lemma save_statistics_loss_stats:
  "save_statistics a = Inr a' \<Longrightarrow> result a \<noteq> Some True \<Longrightarrow>
   stats (self_stats a') = stats (self_stats a)"
  by (auto simp: save_statistics_def Let_def)

text \<open>
  C7, at a new installation on day 0 with the solution ALLOW found on the first row: the
  first finished game leaves \<open>played\<close> at 2, in memory and in the file, with one win
  recorded for the first row.
\<close>

theorem first_win_counts_played_twice:
  "\<exists>a0 a'. WordleApp_on_mount [''allow''] 0 None = Inr a0 \<and>
      played (self_stats a0) = 0 \<and>
      run_keys [''allow''] [] a0 [''a'', ''l'', ''l'', ''o'', ''w'', ''enter''] = Inr a' \<and>
      result a' = Some True \<and>
      played (self_stats a') = 2 \<and>
      stats (self_stats a') = [1, 0, 0, 0, 0, 0] \<and>
      map_option played (stats_json a') = Some 2"
proof -
  have "case WordleApp_on_mount [''allow''] 0 None of
          Inl e \<Rightarrow> False
        | Inr a0 \<Rightarrow>
            played (self_stats a0) = 0 \<and>
            (case run_keys [''allow''] [] a0 [''a'', ''l'', ''l'', ''o'', ''w'', ''enter''] of
               Inl e \<Rightarrow> False
             | Inr a' \<Rightarrow>
                 result a' = Some True \<and> played (self_stats a') = 2 \<and>
                 stats (self_stats a') = [1, 0, 0, 0, 0, 0] \<and>
                 map_option played (stats_json a') = Some 2)"
    by code_simp
  then show ?thesis by (auto split: sum.splits simp del: run_keys.simps)
qed

end
